theory Spec2Isabelle
  imports Complex_Main
begin

section \<open>Numbers and records of the tracker\<close>

text \<open>
  A JavaScript number that may fail \<open>Number.isFinite\<close> is modelled as \<open>real option\<close>:
  \<open>Some x\<close> is the finite number \<open>x\<close>, \<open>None\<close> is \<open>NaN\<close>.  Arithmetic on finite
  numbers is exact real arithmetic.  The fields of a segment are the ones that
  \<open>computeSegmentsAndStats\<close> pushes; the fields of a wave are the ones that
  \<open>detectWavesV2\<close> creates, its \<open>distM\<close> being \<open>wDistM\<close> here, since a segment has a
  field of that name.
\<close>

record segment =
  a :: "real \<times> real"
  b :: "real \<times> real"
  distM :: "real option"
  dtS :: "real option"
  speedKmh :: "real option"
  bearingDeg :: "real option"
  accelKmhS :: "real option"

record wave =
  startIdx :: nat
  endIdx :: nat
  wDistM :: real
  durationS :: real
  maxKmh :: real
  segmentIndices :: "nat list"
  bearings :: "real list"
  ended :: bool
  peak :: real

record options =
  baseThresholdKmh :: real
  minDurationS :: real
  useAdaptive :: bool
  winSec :: real
  kSigma :: real
  dropPct :: real
  endGraceS :: real
  dirStdMaxDeg :: "real option"

text \<open>The mutable locals of \<open>detectWavesV2\<close>.\<close>

record dstate =
  found :: "wave list"
  cur :: "wave option"
  timeOver :: real
  timeUnderPeak :: real

section \<open>Helpers\<close>

definition toRad :: "real \<Rightarrow> real" where
  "toRad d = d * pi / 180"

text \<open>\<open>Number.isFinite(x) ? x : 0\<close>\<close>

definition finiteOr0 :: "real option \<Rightarrow> real" where
  "finiteOr0 x = (case x of Some v \<Rightarrow> v | None \<Rightarrow> 0)"

text \<open>\<open>s.speedKmh || 0\<close>: \<open>NaN\<close> and \<open>0\<close> give \<open>0\<close>.\<close>

definition orZero :: "real option \<Rightarrow> real" where
  "orZero x = (case x of Some v \<Rightarrow> (if v = 0 then 0 else v) | None \<Rightarrow> 0)"

text \<open>\<open>x >= y\<close> and \<open>x > y\<close> with a left operand that may be \<open>NaN\<close>: false on \<open>NaN\<close>.\<close>

definition js_ge :: "real option \<Rightarrow> real \<Rightarrow> bool" where
  "js_ge x y = (case x of Some v \<Rightarrow> v \<ge> y | None \<Rightarrow> False)"

definition js_gt :: "real option \<Rightarrow> real \<Rightarrow> bool" where
  "js_gt x y = (case x of Some v \<Rightarrow> v > y | None \<Rightarrow> False)"

text \<open>
  \<open>circularStdDeg\<close>: the samples that pass \<open>Number.isFinite\<close> are kept, the result is
  \<open>NaN\<close> when none is left.
\<close>

definition circularStdDeg :: "real option list \<Rightarrow> real option" where
  "circularStdDeg samples =
     (let vals = [v. Some v \<leftarrow> samples] in
      if vals = [] then None
      else
        let sn = foldl (\<lambda>acc d. acc + sin (toRad d)) 0 vals;
            cs = foldl (\<lambda>acc d. acc + cos (toRad d)) 0 vals;
            R = sqrt (sn * sn + cs * cs) / real (length vals)
        in Some (sqrt (max 0 (- 2 * ln (max R (1 / 10 ^ 9)))) * 180 / pi))"

section \<open>Geometry and kinematics\<close>

record point =
  lat :: real
  lon :: real
  ele :: "real option"
  time :: "int option"

text \<open>
  \<open>time\<close> is the value of \<open>getTime()\<close> in milliseconds; \<open>None\<close> stands for a missing
  or invalid date, where the source reads \<open>NaN\<close>.
\<close>

record trackStats =
  totalDistM :: real
  totalDurationS :: real
  avgKmh :: real
  trackMaxKmh :: real

text \<open>
  \<open>Math.sqrt\<close> of a negative number and \<open>Math.asin\<close> of a number above 1 are \<open>NaN\<close>.
\<close>

definition haversineDistanceM :: "point \<Rightarrow> point \<Rightarrow> real option" where
  "haversineDistanceM p q =
     (let R = 6371000;
          dLat = toRad (lat q - lat p);
          dLon = toRad (lon q - lon p);
          lat1 = toRad (lat p);
          lat2 = toRad (lat q);
          h = (sin (dLat / 2)) ^ 2 + cos lat1 * cos lat2 * (sin (dLon / 2)) ^ 2
      in if 0 \<le> h \<and> h \<le> 1 then Some (2 * R * arcsin (sqrt h)) else None)"

text \<open>
  The remainder operator \<open>%\<close> on finite numbers with a non-zero divisor: the quotient
  is truncated towards zero, so the result has the sign of the dividend.
\<close>

definition js_rem :: "real \<Rightarrow> real \<Rightarrow> real" where
  "js_rem x y =
     x - y * real_of_int (if 0 \<le> x / y then \<lfloor>x / y\<rfloor> else \<lceil>x / y\<rceil>)"

text \<open>\<open>Math.atan2(y, x)\<close> on finite numbers, a zero being read as \<open>+0\<close>.\<close>

definition js_atan2 :: "real \<Rightarrow> real \<Rightarrow> real" where
  "js_atan2 y x =
     (if x > 0 then arctan (y / x)
      else if x < 0 then (if y \<ge> 0 then arctan (y / x) + pi else arctan (y / x) - pi)
      else if y > 0 then pi / 2
      else if y < 0 then - pi / 2
      else 0)"

definition normalizeBearing :: "real option \<Rightarrow> real option" where
  "normalizeBearing deg =
     (case deg of
        None \<Rightarrow> None
      | Some d \<Rightarrow> (let w = js_rem d 360 in Some (if w < 0 then w + 360 else w)))"

definition angularDifference :: "real option \<Rightarrow> real option \<Rightarrow> real option" where
  "angularDifference x y =
     (case (normalizeBearing x, normalizeBearing y) of
        (Some nx, Some ny) \<Rightarrow>
          (let diff = js_rem \<bar>nx - ny\<bar> 360 in
           Some (if diff > 180 then 360 - diff else diff))
      | _ \<Rightarrow> None)"

definition bearingDegrees :: "real \<times> real \<Rightarrow> real \<times> real \<Rightarrow> real option" where
  "bearingDegrees p q =
     (let lat1 = toRad (fst p); lat2 = toRad (fst q);
          dLon = toRad (snd q - snd p);
          y = sin dLon * cos lat2;
          x = cos lat1 * sin lat2 - sin lat1 * cos lat2 * cos dLon
      in normalizeBearing (Some (js_atan2 y x * 180 / pi)))"

text \<open>The elapsed time between two fixes, in seconds: \<open>NaN\<close> when a timestamp is missing.\<close>

definition elapsedS :: "point \<Rightarrow> point \<Rightarrow> real option" where
  "elapsedS p q =
     (case (time p, time q) of
        (Some tA, Some tB) \<Rightarrow> Some (real_of_int (tB - tA) / 1000)
      | _ \<Rightarrow> None)"

text \<open>
  One iteration of the loop of \<open>computeSegmentsAndStats\<close>, for \<open>i\<close> from 1, on the
  state \<open>(segments, distM, durationS, maxKmh)\<close>.
\<close>

definition segmentStep ::
  "point list \<Rightarrow> segment list \<times> real \<times> real \<times> real \<Rightarrow> nat
     \<Rightarrow> segment list \<times> real \<times> real \<times> real" where
  "segmentStep points st i =
     (case st of (segments, distAcc, durAcc, maxAcc) \<Rightarrow>
        (let p = points ! (i - 1); q = points ! i;
             d = haversineDistanceM p q;
             dt = elapsedS p q;
             speedMS = (case dt of
                          Some t \<Rightarrow> (if t > 0 then map_option (\<lambda>x. x / t) d else Some 0)
                        | None \<Rightarrow> Some 0);
             speed = map_option (\<lambda>v. v * 3.6) speedMS;
             bearing = (case d of
                          Some x \<Rightarrow> bearingDegrees (lat p, lon p) (lat q, lon q)
                        | None \<Rightarrow> None);
             accel = (if i > 1 then
                        (let prev = segments ! (i - 2) in
                         case dtS prev of
                           Some pd \<Rightarrow>
                             (if pd > 0 then
                                (case (speed, speedKmh prev) of
                                   (Some v, Some pv) \<Rightarrow> Some ((v - pv) / pd)
                                 | _ \<Rightarrow> None)
                              else Some 0)
                         | None \<Rightarrow> Some 0)
                      else Some 0);
             seg = \<lparr> a = (lat p, lon p), b = (lat q, lon q), distM = d, dtS = dt,
                     speedKmh = speed, bearingDeg = bearing, accelKmhS = accel \<rparr>
         in (segments @ [seg],
             (case d of Some x \<Rightarrow> distAcc + x | None \<Rightarrow> distAcc),
             (case dt of Some t \<Rightarrow> (if t > 0 then durAcc + t else durAcc) | None \<Rightarrow> durAcc),
             (if js_gt speed maxAcc then finiteOr0 speed else maxAcc))))"

definition segmentLoop :: "point list \<Rightarrow> nat \<Rightarrow> segment list \<times> real \<times> real \<times> real" where
  "segmentLoop points k = foldl (segmentStep points) ([], 0, 0, 0) [1..<k]"

definition computeSegmentsAndStats :: "point list \<Rightarrow> segment list \<times> trackStats" where
  "computeSegmentsAndStats points =
     (case segmentLoop points (length points) of
        (segments, distAcc, durAcc, maxAcc) \<Rightarrow>
          (segments,
           \<lparr> totalDistM = distAcc, totalDurationS = durAcc,
             avgKmh = (distAcc / 1000)
                        / (if durAcc / 3600 = 0 then 1 / 10 ^ 9 else durAcc / 3600),
             trackMaxKmh = maxAcc \<rparr>))"

section \<open>Local statistics over a trailing time window\<close>

text \<open>
  The inner \<open>while\<close> loop of \<open>computeLocalStats\<close>: the left pointer advances while the
  span exceeds the window and the window has more than one segment.
\<close>

function shrinkWindow :: "real \<Rightarrow> segment list \<Rightarrow> nat \<Rightarrow> nat \<Rightarrow> real \<Rightarrow> nat \<times> real" where
  "shrinkWindow w segs right left timeSpan =
     (if timeSpan > w \<and> left < right
      then shrinkWindow w segs right (left + 1) (timeSpan - finiteOr0 (dtS (segs ! left)))
      else (left, timeSpan))"
  by pat_completeness auto
termination
  by (relation "measure (\<lambda>(w, segs, right, left, timeSpan). right - left)") auto

declare shrinkWindow.simps [simp del]

text \<open>
  Median and standard deviation of one window, as computed on the sorted slice.  The
  speeds are finite numbers after \<open>|| 0\<close>, so \<open>filter(Number.isFinite)\<close> keeps them all.
\<close>

definition windowStat :: "real list \<Rightarrow> real \<times> real" where
  "windowStat slice =
     (if slice \<noteq> [] then
        (let sorted = sort slice;
             mid = length sorted div 2;
             median = (if length sorted mod 2 \<noteq> 0 then sorted ! mid
                       else 0.5 * (sorted ! (mid - 1) + sorted ! mid));
             mean = foldl (\<lambda>acc v. acc + v) 0 sorted / real (length sorted);
             variance = foldl (\<lambda>acc v. acc + (v - mean) * (v - mean)) 0 sorted
                          / max 1 (real (length sorted) - 1);
             std = sqrt variance
         in (median, std))
      else (0, 0))"

text \<open>
  One iteration of the outer loop, on the state \<open>(left, timeSpan, localStats)\<close>.
\<close>

definition localStep ::
  "real \<Rightarrow> segment list \<Rightarrow> real list \<Rightarrow> nat \<times> real \<times> (real \<times> real) option list \<Rightarrow> nat
     \<Rightarrow> nat \<times> real \<times> (real \<times> real) option list" where
  "localStep w segs speeds st right =
     (case st of (left, timeSpan, localStats) \<Rightarrow>
        (let dtR = finiteOr0 (dtS (segs ! right));
             lt = shrinkWindow w segs right left (timeSpan + dtR);
             slice = take (right + 1 - fst lt) (drop (fst lt) speeds)
         in (fst lt, snd lt, localStats[right := Some (windowStat slice)])))"

definition localLoop ::
  "real \<Rightarrow> segment list \<Rightarrow> nat \<Rightarrow> nat \<times> real \<times> (real \<times> real) option list" where
  "localLoop w segs k =
     foldl (localStep w segs (map (\<lambda>s. orZero (speedKmh s)) segs))
       (0, 0, replicate (length segs) None) [0..<k]"

definition computeLocalStats :: "segment list \<Rightarrow> real \<Rightarrow> (real \<times> real) option list" where
  "computeLocalStats segs w =
     (if segs = [] \<or> w \<le> 0 then replicate (length segs) None
      else snd (snd (localLoop w segs (length segs))))"

section \<open>The wave detector\<close>

text \<open>
  The per-segment threshold of \<open>detectWavesV2\<close>.  \<open>local\<close> is \<open>None\<close> for the
  \<open>null\<close> of non-adaptive mode; an entry of the array is \<open>None\<close> for \<open>null\<close>.
\<close>

definition threshold ::
  "options \<Rightarrow> (real \<times> real) option list option \<Rightarrow> nat \<Rightarrow> real" where
  "threshold opts local i =
     (if useAdaptive opts then
        (case local of
           None \<Rightarrow> baseThresholdKmh opts
         | Some l \<Rightarrow>
             (if i < length l then
                (case l ! i of
                   None \<Rightarrow> baseThresholdKmh opts
                 | Some (median, std) \<Rightarrow>
                     max (baseThresholdKmh opts) (median + kSigma opts * std))
              else baseThresholdKmh opts))
      else baseThresholdKmh opts)"

definition segDt :: "segment \<Rightarrow> real" where
  "segDt s = (case dtS s of Some d \<Rightarrow> (if d > 0 then d else 0) | None \<Rightarrow> 0)"

definition isOver :: "real \<Rightarrow> segment \<Rightarrow> bool" where
  "isOver thr s = (js_ge (speedKmh s) thr \<and> segDt s > 0)"

definition newWave :: "nat \<Rightarrow> wave" where
  "newWave i = \<lparr> startIdx = i, endIdx = i, wDistM = 0, durationS = 0, maxKmh = 0,
                 segmentIndices = [], bearings = [], ended = False, peak = 0 \<rparr>"

text \<open>The drop of the current speed relative to the peak, in percent.\<close>

definition dropOf :: "wave \<Rightarrow> segment \<Rightarrow> real" where
  "dropOf c s =
     (let v = orZero (speedKmh s) in
      if peak c > 0 then (1 - v / peak c) * 100 else 100)"

text \<open>
  One iteration of the \<open>for\<close> loop of \<open>detectWavesV2\<close>, at index \<open>i\<close> with segment
  \<open>s\<close> and threshold \<open>thr\<close>.
\<close>

definition step :: "options \<Rightarrow> real \<Rightarrow> nat \<Rightarrow> segment \<Rightarrow> dstate \<Rightarrow> dstate" where
  "step opts thr i s st =
     (let dt = segDt s;
          over = (js_ge (speedKmh s) thr \<and> dt > 0)
      in
      if over then
        (let st0 = (case cur st of
                      None \<Rightarrow> st\<lparr> cur := Some (newWave i), timeOver := 0, timeUnderPeak := 0 \<rparr>
                    | Some c \<Rightarrow> st);
             c0 = (case cur st of None \<Rightarrow> newWave i | Some c \<Rightarrow> c);
             c1 = c0\<lparr> endIdx := i \<rparr>;
             c2 = c1\<lparr> segmentIndices := segmentIndices c1 @ [i] \<rparr>;
             c3 = c2\<lparr> wDistM := wDistM c2 + finiteOr0 (distM s) \<rparr>;
             c4 = c3\<lparr> durationS := durationS c3 + dt \<rparr>;
             c5 = (if js_gt (speedKmh s) (maxKmh c4)
                   then c4\<lparr> maxKmh := finiteOr0 (speedKmh s), peak := finiteOr0 (speedKmh s) \<rparr>
                   else c4);
             c6 = (case bearingDeg s of
                     Some bd \<Rightarrow> c5\<lparr> bearings := bearings c5 @ [bd] \<rparr>
                   | None \<Rightarrow> c5)
         in st0\<lparr> cur := Some c6, timeOver := timeOver st0 + dt, timeUnderPeak := 0 \<rparr>)
      else
        (case cur st of
           None \<Rightarrow> st
         | Some c \<Rightarrow>
             (let below = (dropOf c s \<ge> dropPct opts) in
              if below then
                (let t = timeUnderPeak st + dt in
                 if t \<ge> endGraceS opts then
                   st\<lparr> found := (if durationS c \<ge> minDurationS opts \<and> segmentIndices c \<noteq> []
                                   then found st @ [c] else found st),
                       cur := None, timeOver := 0, timeUnderPeak := 0 \<rparr>
                 else st\<lparr> timeUnderPeak := t \<rparr>)
              else
                (let c1 = c\<lparr> endIdx := i \<rparr>;
                     c2 = c1\<lparr> segmentIndices := segmentIndices c1 @ [i] \<rparr>;
                     c3 = c2\<lparr> wDistM := wDistM c2 + finiteOr0 (distM s) \<rparr>;
                     c4 = c3\<lparr> durationS := durationS c3 + dt \<rparr>;
                     c5 = (if js_gt (speedKmh s) (maxKmh c4)
                           then c4\<lparr> maxKmh := finiteOr0 (speedKmh s),
                                    peak := finiteOr0 (speedKmh s) \<rparr>
                           else c4);
                     c6 = (case bearingDeg s of
                             Some bd \<Rightarrow> c5\<lparr> bearings := bearings c5 @ [bd] \<rparr>
                           | None \<Rightarrow> c5)
                 in st\<lparr> cur := Some c6, timeUnderPeak := 0 \<rparr>))))"

definition initState :: dstate where
  "initState = \<lparr> found = [], cur = None, timeOver = 0, timeUnderPeak = 0 \<rparr>"

text \<open>The state after the first \<open>k\<close> iterations of the loop.\<close>

definition runLoop ::
  "options \<Rightarrow> (real \<times> real) option list option \<Rightarrow> segment list \<Rightarrow> nat \<Rightarrow> dstate" where
  "runLoop opts local segs k =
     foldl (\<lambda>st i. step opts (threshold opts local i) i (segs ! i) st) initState [0..<k]"

text \<open>End of the trace: the open candidate is pushed when it is long enough.\<close>

definition closeAtEnd :: "options \<Rightarrow> dstate \<Rightarrow> wave list" where
  "closeAtEnd opts st =
     (case cur st of
        Some c \<Rightarrow> (if durationS c \<ge> minDurationS opts \<and> segmentIndices c \<noteq> []
                   then found st @ [c] else found st)
      | None \<Rightarrow> found st)"

text \<open>The predicate of the direction stability filter (true: the wave is kept).\<close>

definition stableWave :: "options \<Rightarrow> wave \<Rightarrow> bool" where
  "stableWave opts w =
     (let std = circularStdDeg (map Some (bearings w)) in
      (case dirStdMaxDeg opts of
         None \<Rightarrow> True
       | Some m \<Rightarrow> (case std of None \<Rightarrow> True | Some sd \<Rightarrow> sd \<le> m)))"

text \<open>\<open>const local = useAdaptive ? computeLocalStats(winSec) : null\<close>\<close>

definition localOf :: "segment list \<Rightarrow> options \<Rightarrow> (real \<times> real) option list option" where
  "localOf segs opts =
     (if useAdaptive opts then Some (computeLocalStats segs (winSec opts)) else None)"

text \<open>The array \<open>found\<close> after the loop and the end of the trace.\<close>

definition foundWaves :: "segment list \<Rightarrow> options \<Rightarrow> wave list" where
  "foundWaves segs opts =
     closeAtEnd opts (runLoop opts (localOf segs opts) segs (length segs))"

definition detectWavesV2 :: "segment list \<Rightarrow> options \<Rightarrow> wave list" where
  "detectWavesV2 segs opts = filter (stableWave opts) (foundWaves segs opts)"

section \<open>The direction post-filter\<close>

text \<open>
  An enriched wave is a wave with the fields that \<open>enrichWave\<close> adds; the filter of
  \<open>runWaveDetection\<close> reads \<open>directionDeg\<close> only, the other added fields are left out.
\<close>

record enrichedWave = wave +
  directionDeg :: "real option"

text \<open>The result of \<open>getDirectionSettings\<close>: finite numbers, read from the inputs.\<close>

record directionSettings =
  enabled :: bool
  direction :: real
  tolerance :: real
  stdMax :: real

text \<open>
  The optional filter of \<open>runWaveDetection\<close>: the waves that are kept and
  \<open>rejectedCount\<close>.
\<close>

definition directionPostFilter ::
  "directionSettings \<Rightarrow> enrichedWave list \<Rightarrow> enrichedWave list \<times> nat" where
  "directionPostFilter ds enriched =
     (if enabled ds then
        (let filtered =
               filter (\<lambda>w. case directionDeg w of
                              None \<Rightarrow> False
                            | Some d \<Rightarrow>
                                (case angularDifference (Some d) (Some (direction ds)) of
                                   None \<Rightarrow> False
                                 | Some delta \<Rightarrow> delta \<le> tolerance ds)) enriched
         in (filtered, length enriched - length filtered))
      else (enriched, 0))"

section \<open>Loading a file\<close>

text \<open>The globals \<open>points\<close>, \<open>segments\<close>, \<open>stats\<close> and \<open>waves\<close>.\<close>

record appState =
  points :: "point list"
  segments :: "segment list"
  stats :: "trackStats option"
  waves :: "enrichedWave list"

text \<open>The errors thrown by the parsers and by the handler itself.\<close>

datatype loadError =
  InvalidGpx | CsvTooShort | CsvColumnsMissing | UnsupportedFormat | NotEnoughPoints

definition endsWith :: "string \<Rightarrow> string \<Rightarrow> bool" where
  "endsWith s suf = (length suf \<le> length s \<and> drop (length s - length suf) s = suf)"

text \<open>
  The \<open>change\<close> handler of the file input, for a selected file with the lower-case name
  \<open>name\<close> and the content \<open>text\<close>.  The parsers read the DOM and are parameters; so is
  \<open>runWaveDetection\<close>, which reads its parameters from the page.  The result is the new
  state and the error that is shown, if any.  The assignment to \<open>points\<close> comes before the
  test of the length, as in the source.
\<close>

definition fileChange ::
  "(string \<Rightarrow> loadError + point list) \<Rightarrow> (string \<Rightarrow> loadError + point list)
     \<Rightarrow> (appState \<Rightarrow> appState) \<Rightarrow> appState \<Rightarrow> string \<Rightarrow> string
     \<Rightarrow> appState \<times> loadError option" where
  "fileChange parseGPX parseCSV runWaveDetection st name text =
     (let parsed = (if endsWith name ''.gpx'' then parseGPX text
                    else if endsWith name ''.csv'' then parseCSV text
                    else Inl UnsupportedFormat)
      in case parsed of
           Inl e \<Rightarrow> (st, Some e)
         | Inr pts \<Rightarrow>
             (let st1 = st\<lparr> points := pts \<rparr> in
              if length pts < 2 then (st1, Some NotEnoughPoints)
              else
                (let cs = computeSegmentsAndStats pts;
                     st2 = st1\<lparr> segments := fst cs, stats := Some (snd cs) \<rparr>
                 in (runWaveDetection st2, None))))"

section \<open>Predicates used in the statements\<close>

text \<open>
  A list of member indices that is non-empty, strictly ascending and below \<open>k\<close>.
\<close>

definition strictRun :: "nat \<Rightarrow> nat list \<Rightarrow> bool" where
  "strictRun k xs = (xs \<noteq> [] \<and> sorted_wrt (<) xs \<and> list_all (\<lambda>j. j < k) xs)"

text \<open>A contiguous run: every index from the first member to the last one is a member.\<close>

definition contiguousRun :: "nat list \<Rightarrow> bool" where
  "contiguousRun xs = (xs = [hd xs..<hd xs + length xs])"

text \<open>
  A candidate whose members are a strict run from \<open>startIdx\<close> to \<open>endIdx\<close> and whose
  duration is the sum of the positive elapsed times of its members.
\<close>

definition waveOk :: "segment list \<Rightarrow> nat \<Rightarrow> wave \<Rightarrow> bool" where
  "waveOk segs k w =
     (strictRun k (segmentIndices w) \<and> hd (segmentIndices w) = startIdx w
      \<and> last (segmentIndices w) = endIdx w
      \<and> durationS w = sum_list (map (\<lambda>j. segDt (segs ! j)) (segmentIndices w)))"

definition stateOk :: "options \<Rightarrow> segment list \<Rightarrow> nat \<Rightarrow> dstate \<Rightarrow> bool" where
  "stateOk opts segs k st =
     (list_all (\<lambda>w. waveOk segs k w \<and> durationS w \<ge> minDurationS opts) (found st)
      \<and> (case cur st of None \<Rightarrow> True | Some c \<Rightarrow> waveOk segs k c))"

text \<open>
  Every index from \<open>startIdx\<close> up to \<open>k\<close> that is not a member of the wave belongs to
  a segment that did not meet the bar.
\<close>

definition gapsUnderBar ::
  "options \<Rightarrow> (real \<times> real) option list option \<Rightarrow> segment list \<Rightarrow> nat \<Rightarrow> wave \<Rightarrow> bool" where
  "gapsUnderBar opts local segs k w =
     (\<forall>j. startIdx w \<le> j \<and> j < k \<and> j \<notin> set (segmentIndices w)
          \<longrightarrow> \<not> isOver (threshold opts local j) (segs ! j))"

definition gapOk ::
  "options \<Rightarrow> (real \<times> real) option list option \<Rightarrow> segment list \<Rightarrow> nat \<Rightarrow> dstate \<Rightarrow> bool" where
  "gapOk opts local segs k st =
     (list_all (\<lambda>w. gapsUnderBar opts local segs (Suc (endIdx w)) w) (found st)
      \<and> (case cur st of
            None \<Rightarrow> True
          | Some c \<Rightarrow> endIdx c < k \<and> gapsUnderBar opts local segs k c))"

text \<open>
  The closed waves are contiguous runs and the open candidate has every index from its
  start as a member; the grace timer is not negative.
\<close>

definition contigOk :: "nat \<Rightarrow> dstate \<Rightarrow> bool" where
  "contigOk k st =
     (0 \<le> timeUnderPeak st
      \<and> list_all (\<lambda>w. contiguousRun (segmentIndices w)) (found st)
      \<and> (case cur st of
            None \<Rightarrow> True
          | Some c \<Rightarrow> startIdx c < k \<and> segmentIndices c = [startIdx c..<k]))"

text \<open>The fields of the segment from fix \<open>p\<close> to fix \<open>q\<close> that do not depend on its predecessor.\<close>

definition segmentFields :: "point \<Rightarrow> point \<Rightarrow> segment \<Rightarrow> bool" where
  "segmentFields p q s =
     (distM s = haversineDistanceM p q \<and> dtS s = elapsedS p q
      \<and> speedKmh s = (case elapsedS p q of
                        Some t \<Rightarrow> (if t > 0 then map_option (\<lambda>d. d / t * 3.6) (haversineDistanceM p q)
                                   else Some 0)
                      | None \<Rightarrow> Some 0)
      \<and> bearingDeg s = (case haversineDistanceM p q of
                          Some x \<Rightarrow> bearingDegrees (lat p, lon p) (lat q, lon q)
                        | None \<Rightarrow> None))"

text \<open>
  The candidate \<open>c\<close> extended by the segment \<open>s\<close> of index \<open>i\<close>: the index becomes a
  member and the end of the wave, distance and duration grow, the peak becomes the larger
  of the old peak and the speed, the bearing is sampled when it is defined.
\<close>

definition extendWith :: "nat \<Rightarrow> segment \<Rightarrow> wave \<Rightarrow> wave" where
  "extendWith i s c =
     c\<lparr> endIdx := i,
        segmentIndices := segmentIndices c @ [i],
        wDistM := wDistM c + finiteOr0 (distM s),
        durationS := durationS c + segDt s,
        maxKmh := max (maxKmh c) (finiteOr0 (speedKmh s)),
        peak := max (peak c) (finiteOr0 (speedKmh s)),
        bearings := (case bearingDeg s of Some bd \<Rightarrow> bearings c @ [bd] | None \<Rightarrow> bearings c) \<rparr>"

text \<open>The verdict on a candidate that closes: it is appended to \<open>found\<close> or dropped.\<close>

definition emitOrDrop :: "options \<Rightarrow> wave \<Rightarrow> wave list \<Rightarrow> wave list" where
  "emitOrDrop opts c fs =
     (if durationS c \<ge> minDurationS opts \<and> segmentIndices c \<noteq> [] then fs @ [c] else fs)"

text \<open>The peak of an open candidate is its maximum speed and is not negative.\<close>

definition peakOk :: "dstate \<Rightarrow> bool" where
  "peakOk st = (case cur st of None \<Rightarrow> True | Some c \<Rightarrow> peak c = maxKmh c \<and> 0 \<le> peak c)"

text \<open>While a candidate is open the grace timer is below the grace period.\<close>

definition graceOk :: "options \<Rightarrow> dstate \<Rightarrow> bool" where
  "graceOk opts st = (case cur st of None \<Rightarrow> True | Some c \<Rightarrow> timeUnderPeak st < endGraceS opts)"

text \<open>
  The left pointer of \<open>computeLocalStats\<close> after the iteration for the right position
  \<open>i\<close>, and the speeds and the elapsed time of the window \<open>[l..i]\<close>.
\<close>

definition leftAt :: "real \<Rightarrow> segment list \<Rightarrow> nat \<Rightarrow> nat" where
  "leftAt w segs i = fst (localLoop w segs (Suc i))"

text \<open>The left pointer before the iteration for the right position \<open>i\<close>.\<close>

definition leftBefore :: "real \<Rightarrow> segment list \<Rightarrow> nat \<Rightarrow> nat" where
  "leftBefore w segs i = fst (localLoop w segs i)"

definition windowSpeeds :: "segment list \<Rightarrow> nat \<Rightarrow> nat \<Rightarrow> real list" where
  "windowSpeeds segs l i = map (\<lambda>j. orZero (speedKmh (segs ! j))) [l..<Suc i]"

definition windowSpan :: "segment list \<Rightarrow> nat \<Rightarrow> nat \<Rightarrow> real" where
  "windowSpan segs l i = sum_list (map (\<lambda>j. finiteOr0 (dtS (segs ! j))) [l..<Suc i])"

text \<open>
  The statistics in the words of the specification: the median is the middle value of the
  sorted values, or the average of the two middle values for an even count; the standard
  deviation is the square root of the sum of squared deviations from the mean over
  \<open>n - 1\<close>, the denominator being at least 1.
\<close>

definition specMedian :: "real list \<Rightarrow> real" where
  "specMedian xs =
     (let ys = sort xs; n = length xs in
      if odd n then ys ! (n div 2) else (ys ! (n div 2 - 1) + ys ! (n div 2)) / 2)"

definition specMean :: "real list \<Rightarrow> real" where
  "specMean xs = sum_list xs / real (length xs)"

definition specStd :: "real list \<Rightarrow> real" where
  "specStd xs =
     sqrt (sum_list (map (\<lambda>x. (x - specMean xs) ^ 2) xs) / max 1 (real (length xs) - 1))"

text \<open>
  The circular standard deviation in the words of the specification, for at least one
  sample: \<open>sqrt (max 0 (- 2 ln R)) * 180 / pi\<close>, where \<open>R\<close> is the mean resultant length
  \<open>sqrt ((\<Sum> sin)\<^sup>2 + (\<Sum> cos)\<^sup>2) / n\<close>, not below \<open>10\<^sup>-\<^sup>9\<close>.
\<close>

definition specCircularStd :: "real list \<Rightarrow> real" where
  "specCircularStd ds =
     (let R = sqrt ((sum_list (map (\<lambda>d. sin (toRad d)) ds)) ^ 2
                    + (sum_list (map (\<lambda>d. cos (toRad d)) ds)) ^ 2) / real (length ds)
      in sqrt (max 0 (- 2 * ln (max R (1 / 10 ^ 9)))) * 180 / pi)"

text \<open>
  A candidate is rejected for its direction: the maximum is finite, the candidate has
  bearing samples and their circular standard deviation exceeds the maximum.
\<close>

definition dirRejects :: "options \<Rightarrow> wave \<Rightarrow> bool" where
  "dirRejects opts w =
     (case dirStdMaxDeg opts of
        None \<Rightarrow> False
      | Some m \<Rightarrow> bearings w \<noteq> [] \<and> specCircularStd (bearings w) > m)"

text \<open>The number of segments that meet the bar \<open>thr\<close>.\<close>

definition overCount :: "real \<Rightarrow> segment list \<Rightarrow> nat" where
  "overCount thr segs = length (filter (isOver thr) segs)"

text \<open>
  The closed waves and the open candidate are at most as many as the segments that met
  the bar among the first \<open>k\<close>.
\<close>

definition countOk :: "real \<Rightarrow> segment list \<Rightarrow> nat \<Rightarrow> dstate \<Rightarrow> bool" where
  "countOk thr segs k st =
     (length (found st) + (case cur st of None \<Rightarrow> 0 | Some c \<Rightarrow> 1)
        \<le> overCount thr (take k segs))"

text \<open>
  The angular difference in the words of the specification: both bearings are brought
  into \<open>[0, 360)\<close>, and the smaller of the two arcs between them is taken.
\<close>

definition wrap360 :: "real \<Rightarrow> real" where
  "wrap360 x = x - 360 * real_of_int \<lfloor>x / 360\<rfloor>"

definition arcDistance :: "real \<Rightarrow> real \<Rightarrow> real" where
  "arcDistance x y = (let d = \<bar>wrap360 x - wrap360 y\<bar> in min d (360 - d))"

section \<open>Sample tracks\<close>

text \<open>A segment heading north at \<open>v\<close> km/h for \<open>d\<close> seconds.\<close>

definition northSeg :: "real \<Rightarrow> real \<Rightarrow> segment" where
  "northSeg v d = \<lparr> a = (0, 0), b = (0, 0), distM = Some (v * d / 3.6), dtS = Some d,
                    speedKmh = Some v, bearingDeg = Some 0, accelKmhS = Some 0 \<rparr>"

definition fixedOpts :: options where
  "fixedOpts = \<lparr> baseThresholdKmh = 15, minDurationS = 1, useAdaptive = False, winSec = 8,
                 kSigma = 0.8, dropPct = 35, endGraceS = 1, dirStdMaxDeg = Some 25 \<rparr>"

text \<open>A ride, one second of standstill, a ride again; the grace period is two seconds.\<close>

definition pausedOpts :: options where
  "pausedOpts = fixedOpts\<lparr> endGraceS := 2 \<rparr>"

definition pausedTrack :: "segment list" where
  "pausedTrack = [northSeg 20 1, northSeg 0 1, northSeg 20 1]"

definition pausedWave :: wave where
  "pausedWave = \<lparr> startIdx = 0, endIdx = 2, wDistM = 20 / 3.6 + 20 / 3.6, durationS = 2,
                  maxKmh = 20, segmentIndices = [0, 2], bearings = [0, 0], ended = False,
                  peak = 20 \<rparr>"

text \<open>Two fixes ten seconds apart.\<close>

definition twoFixes :: "point list" where
  "twoFixes = [\<lparr> lat = 0, lon = 0, ele = None, time = Some 0 \<rparr>,
               \<lparr> lat = 0.0009, lon = 0, ele = None, time = Some 10000 \<rparr>]"


text \<open>The candidate that is open after the first segment of the sample tracks.\<close>

definition firstRide :: wave where
  "firstRide = \<lparr> startIdx = 0, endIdx = 0, wDistM = 20 / 3.6, durationS = 1, maxKmh = 20,
                 segmentIndices = [0], bearings = [0], ended = False, peak = 20 \<rparr>"

text \<open>A ride, a fix without a timestamp (two segments without elapsed time), a ride.\<close>

definition untimedSeg :: segment where
  "untimedSeg = \<lparr> a = (0, 0), b = (0, 0), distM = Some 0, dtS = None, speedKmh = Some 0,
                  bearingDeg = Some 0, accelKmhS = Some 0 \<rparr>"

definition gapTrack :: "segment list" where
  "gapTrack = [northSeg 20 1, untimedSeg, untimedSeg, northSeg 20 1]"

definition adaptiveOpts :: options where
  "adaptiveOpts = fixedOpts\<lparr> useAdaptive := True \<rparr>"

text \<open>A ride with a dip to 5 km/h in the middle, and a bar below and above the dip.\<close>

definition dipTrack :: "segment list" where
  "dipTrack = [northSeg 20 1, northSeg 5 1, northSeg 20 1]"

definition lowBar :: options where
  "lowBar = fixedOpts\<lparr> baseThresholdKmh := 4 \<rparr>"

definition highBar :: options where
  "highBar = fixedOpts\<lparr> baseThresholdKmh := 15 \<rparr>"

text \<open>A candidate that turned around: bearings north and south.\<close>

definition uTurnWave :: wave where
  "uTurnWave = \<lparr> startIdx = 0, endIdx = 1, wDistM = 20 / 3.6 + 20 / 3.6, durationS = 2,
                 maxKmh = 20, segmentIndices = [0, 1], bearings = [0, 180], ended = False,
                 peak = 20 \<rparr>"

definition dipWave :: wave where
  "dipWave = \<lparr> startIdx = 0, endIdx = 2, wDistM = 20 / 3.6 + 5 / 3.6 + 20 / 3.6,
               durationS = 3, maxKmh = 20, segmentIndices = [0, 1, 2], bearings = [0, 0, 0],
               ended = False, peak = 20 \<rparr>"

definition lastRide :: wave where
  "lastRide = \<lparr> startIdx = 2, endIdx = 2, wDistM = 20 / 3.6, durationS = 1, maxKmh = 20,
                segmentIndices = [2], bearings = [0], ended = False, peak = 20 \<rparr>"

text \<open>
  The state after the two fixes were loaded, the only fix of a short file, an enriched wave
  with a given direction, and the settings of a filter around 350 degrees.
\<close>

definition loadedState :: appState where
  "loadedState = \<lparr> points = twoFixes, segments = fst (computeSegmentsAndStats twoFixes),
                    stats = Some (snd (computeSegmentsAndStats twoFixes)), waves = [] \<rparr>"

definition loneFix :: point where
  "loneFix = \<lparr> lat = 1, lon = 1, ele = None, time = Some 0 \<rparr>"

definition headingWave :: "real option \<Rightarrow> enrichedWave" where
  "headingWave d = wave.extend firstRide (enrichedWave.fields d)"

definition westSettings :: directionSettings where
  "westSettings = \<lparr> enabled = True, direction = 350, tolerance = 30, stdMax = 25 \<rparr>"

section \<open>Basic facts\<close>

subsection \<open>Geometry\<close>






lemma js_atan2_range: "- pi < js_atan2 y x \<and> js_atan2 y x \<le> pi"
proof -
  have b: "- (pi / 2) < arctan (y / x)" "arctan (y / x) < pi / 2"
    by (rule arctan_lbound, rule arctan_ubound)
  have p: "0 < pi" by simp
  consider "x > 0" | "x < 0" "y \<ge> 0" | "x < 0" "y < 0" | "x = 0" by linarith
  then show ?thesis
  proof cases
    case 1
    then show ?thesis using b p by (simp add: js_atan2_def)
  next
    case 2
    then have "y / x \<le> 0" by (simp add: divide_nonneg_neg)
    then have "arctan (y / x) \<le> 0" by simp
    then show ?thesis using 2 b p by (simp add: js_atan2_def)
  next
    case 3
    then have "0 < y / x" by (simp add: divide_neg_neg)
    then have "0 < arctan (y / x)" by simp
    then show ?thesis using 3 b p by (simp add: js_atan2_def)
  next
    case 4
    have "js_atan2 y x = (if y > 0 then pi / 2 else if y < 0 then - pi / 2 else 0)"
      using 4 by (simp add: js_atan2_def)
    then show ?thesis using p by (cases "y > 0"; cases "y < 0"; simp; linarith)
  qed
qed




subsection \<open>The segment loop\<close>

lemma segmentLoop_Suc:
  "1 \<le> k \<Longrightarrow> segmentLoop pts (Suc k) = segmentStep pts (segmentLoop pts k) k"
  by (simp add: segmentLoop_def)

lemma segmentStep_fst:
  "\<exists>s. fst (segmentStep pts (segs, x, y, z) i) = segs @ [s]
       \<and> segmentFields (pts ! (i - 1)) (pts ! i) s"
  by (cases "haversineDistanceM (pts ! (i - 1)) (pts ! i)")
     (auto simp: segmentStep_def Let_def segmentFields_def split: option.splits)

lemma segmentLoop_inv:
  "1 \<le> k \<Longrightarrow>
   length (fst (segmentLoop pts k)) = k - 1
   \<and> (\<forall>j < k - 1. segmentFields (pts ! j) (pts ! (j + 1)) (fst (segmentLoop pts k) ! j))"
proof (induction k rule: nat_induct_at_least)
  case base
  show ?case by (simp add: segmentLoop_def)
next
  case (Suc k)
  obtain segs x y z where st: "segmentLoop pts k = (segs, x, y, z)"
    by (cases "segmentLoop pts k") auto
  from segmentStep_fst [of pts segs x y z k]
  obtain s where s: "fst (segmentStep pts (segs, x, y, z) k) = segs @ [s]"
      "segmentFields (pts ! (k - 1)) (pts ! k) s" by blast
  have len: "length segs = k - 1" using Suc.IH st by simp
  have old: "\<forall>j < k - 1. segmentFields (pts ! j) (pts ! (j + 1)) (segs ! j)"
    using Suc.IH st by simp
  have e: "fst (segmentLoop pts (Suc k)) = segs @ [s]"
    using Suc.hyps s(1) st by (simp add: segmentLoop_Suc)
  show ?case
  proof (intro conjI allI impI)
    show "length (fst (segmentLoop pts (Suc k))) = Suc k - 1" using e len Suc.hyps by simp
  next
    fix j assume j: "j < Suc k - 1"
    show "segmentFields (pts ! j) (pts ! (j + 1)) (fst (segmentLoop pts (Suc k)) ! j)"
    proof (cases "j < k - 1")
      case True
      then show ?thesis using old e len by (simp add: nth_append)
    next
      case False
      then have "j = k - 1" using j by simp
      then show ?thesis using s(2) e len Suc.hyps by (simp add: nth_append)
    qed
  qed
qed

lemma computeSegments_fst: "fst (computeSegmentsAndStats pts) = fst (segmentLoop pts (length pts))"
  by (simp add: computeSegmentsAndStats_def split: prod.splits)




subsection \<open>Well-formed candidates\<close>

lemma strictRun_mono: "strictRun k xs \<Longrightarrow> k \<le> k' \<Longrightarrow> strictRun k' xs"
  by (auto simp: strictRun_def list_all_iff)

lemma strictRun_snoc: "strictRun k xs \<Longrightarrow> strictRun (Suc k) (xs @ [k])"
  by (auto simp: strictRun_def list_all_iff sorted_wrt_append)

lemma strictRun_single: "strictRun (Suc k) [k]"
  by (simp add: strictRun_def)

lemma waveOk_mono: "waveOk segs k w \<Longrightarrow> k \<le> k' \<Longrightarrow> waveOk segs k' w"
  by (auto simp: waveOk_def intro: strictRun_mono)

lemma stateOk_init: "stateOk opts segs 0 initState"
  by (simp add: stateOk_def initState_def)

lemma stateOk_step:
  assumes "stateOk opts segs k st"
  shows "stateOk opts segs (Suc k) (step opts thr k (segs ! k) st)"
proof -
  have f: "list_all (\<lambda>w. waveOk segs (Suc k) w \<and> durationS w \<ge> minDurationS opts) (found st)"
    using assms by (auto simp: stateOk_def list_all_iff intro: waveOk_mono)
  show ?thesis
  proof (cases "cur st")
    case None
    then show ?thesis using f
      by (auto simp: step_def stateOk_def Let_def newWave_def waveOk_def strictRun_single
          split: option.splits)
  next
    case (Some c)
    then have c: "waveOk segs k c" using assms by (simp add: stateOk_def)
    then have ne: "segmentIndices c \<noteq> []" by (simp add: waveOk_def strictRun_def)
    have c': "waveOk segs (Suc k) c" using c by (rule waveOk_mono) simp
    show ?thesis using f Some c c' ne
      by (auto simp: step_def stateOk_def Let_def waveOk_def strictRun_snoc
          split: option.splits)
  qed
qed

lemma stateOk_runLoop: "stateOk opts segs k (runLoop opts local segs k)"
proof (induction k)
  case 0
  show ?case by (simp add: runLoop_def stateOk_init)
next
  case (Suc k)
  then show ?case
    by (simp add: runLoop_def stateOk_step)
qed

lemma closeAtEnd_ok:
  "stateOk opts segs k st \<Longrightarrow>
   list_all (\<lambda>w. waveOk segs k w \<and> durationS w \<ge> minDurationS opts) (closeAtEnd opts st)"
  by (auto simp: closeAtEnd_def stateOk_def split: option.splits)

lemma foundWaves_ok:
  "list_all (\<lambda>w. waveOk segs (length segs) w \<and> durationS w \<ge> minDurationS opts) (foundWaves segs opts)"
  unfolding foundWaves_def by (rule closeAtEnd_ok) (rule stateOk_runLoop)

lemma gapsUnderBar_less:
  "gapsUnderBar opts local segs k w \<Longrightarrow> k' \<le> k \<Longrightarrow> gapsUnderBar opts local segs k' w"
  by (auto simp: gapsUnderBar_def)

lemma gapsUnderBar_skip:
  "gapsUnderBar opts local segs k w \<Longrightarrow> \<not> isOver (threshold opts local k) (segs ! k)
   \<Longrightarrow> gapsUnderBar opts local segs (Suc k) w"
  by (auto simp: gapsUnderBar_def less_Suc_eq)

lemma gapsUnderBar_push:
  assumes "gapsUnderBar opts local segs k w"
    "startIdx w' = startIdx w" "set (segmentIndices w') = insert k (set (segmentIndices w))"
  shows "gapsUnderBar opts local segs (Suc k) w'"
  using assms by (auto simp: gapsUnderBar_def less_Suc_eq)

lemma gapsUnderBar_new:
  "startIdx w = k \<Longrightarrow> k \<in> set (segmentIndices w) \<Longrightarrow> gapsUnderBar opts local segs (Suc k) w"
  by (auto simp: gapsUnderBar_def less_Suc_eq)

lemma gapOk_step:
  assumes "gapOk opts local segs k st"
  shows "gapOk opts local segs (Suc k) (step opts (threshold opts local k) k (segs ! k) st)"
proof (cases "cur st")
  case None
  then show ?thesis using assms
    by (auto simp: gapOk_def step_def Let_def newWave_def intro!: gapsUnderBar_new
        split: option.splits)
next
  case (Some c)
  then have c: "endIdx c < k" "gapsUnderBar opts local segs k c"
    using assms by (simp_all add: gapOk_def)
  have f: "list_all (\<lambda>w. gapsUnderBar opts local segs (Suc (endIdx w)) w) (found st)"
    using assms by (simp add: gapOk_def)
  have cl: "gapsUnderBar opts local segs (Suc (endIdx c)) c"
    using c by (intro gapsUnderBar_less [OF c(2)]) simp
  show ?thesis
  proof (cases "isOver (threshold opts local k) (segs ! k)")
    case True
    then show ?thesis using Some f c
      by (auto simp: gapOk_def step_def Let_def isOver_def
          intro!: gapsUnderBar_push [OF c(2)] split: option.splits)
  next
    case False
    have sk: "gapsUnderBar opts local segs (Suc k) c"
      using c(2) False by (rule gapsUnderBar_skip)
    show ?thesis using Some f c cl sk False
      by (auto simp: gapOk_def step_def Let_def isOver_def
          intro!: gapsUnderBar_push [OF c(2)] split: option.splits)
  qed
qed

lemma gapOk_runLoop: "gapOk opts local segs k (runLoop opts local segs k)"
proof (induction k)
  case 0
  show ?case by (simp add: runLoop_def gapOk_def initState_def)
next
  case (Suc k)
  then show ?case using gapOk_step [of opts local segs k] by (simp add: runLoop_def)
qed

lemma closeAtEnd_gaps:
  "gapOk opts local segs k st \<Longrightarrow>
   list_all (\<lambda>w. gapsUnderBar opts local segs (Suc (endIdx w)) w) (closeAtEnd opts st)"
  by (auto simp: closeAtEnd_def gapOk_def split: option.splits
      intro: gapsUnderBar_less)

lemma segDt_nonneg: "0 \<le> segDt s"
  by (simp add: segDt_def split: option.splits)

lemma contiguousRun_upt: "i < k \<Longrightarrow> contiguousRun [i..<k]"
  by (simp add: contiguousRun_def)

lemma contigOk_step:
  assumes "contigOk k st" "endGraceS opts \<le> segDt s"
  shows "contigOk (Suc k) (step opts thr k s st)"
proof (cases "cur st")
  case None
  then show ?thesis using assms segDt_nonneg [of s]
    by (auto simp: contigOk_def step_def Let_def newWave_def split: option.splits)
next
  case (Some c)
  then have c: "startIdx c < k" "segmentIndices c = [startIdx c..<k]"
    using assms by (simp_all add: contigOk_def)
  have r: "contiguousRun (segmentIndices c)" using c contiguousRun_upt by simp
  have t: "endGraceS opts \<le> timeUnderPeak st + segDt s"
    using assms by (simp add: contigOk_def)
  show ?thesis using Some assms(1) c r t segDt_nonneg [of s]
    by (auto simp: contigOk_def step_def Let_def split: option.splits)
qed

lemma contigOk_runLoop:
  assumes "\<forall>s \<in> set segs. endGraceS opts \<le> segDt s" "k \<le> length segs"
  shows "contigOk k (runLoop opts local segs k)"
  using assms(2)
proof (induction k)
  case 0
  show ?case by (simp add: runLoop_def contigOk_def initState_def)
next
  case (Suc k)
  then have "contigOk k (runLoop opts local segs k)" "endGraceS opts \<le> segDt (segs ! k)"
    using assms(1) by simp_all
  then show ?case using contigOk_step [of k _ opts "segs ! k"] by (simp add: runLoop_def)
qed

lemma closeAtEnd_contig:
  "contigOk k st \<Longrightarrow> list_all (\<lambda>w. contiguousRun (segmentIndices w)) (closeAtEnd opts st)"
  by (auto simp: closeAtEnd_def contigOk_def contiguousRun_upt split: option.splits)

text \<open>
  Claim C1, as amended.  The member indices of every wave returned by \<open>detectWavesV2\<close>
  are non-empty, strictly ascending and within \<open>[0, length segs - 1]\<close>; the first one is
  \<open>startIdx\<close>, the last one is \<open>endIdx\<close>; the duration of the wave is the sum of the
  positive elapsed times of its members and is at least \<open>minDurationS\<close>.  An index between
  \<open>startIdx\<close> and \<open>endIdx\<close> is missing only for a segment that did not meet the bar (it
  was met while the grace timer ran), and the members are a contiguous run whenever no
  segment is shorter than the grace period, \<open>endGraceS \<le> segDt s\<close> for every segment.
\<close>

theorem detectWavesV2_members:
  assumes "w \<in> set (detectWavesV2 segs opts)"
  shows "segmentIndices w \<noteq> [] \<and> sorted_wrt (<) (segmentIndices w)
         \<and> set (segmentIndices w) \<subseteq> {0..<length segs}
         \<and> hd (segmentIndices w) = startIdx w \<and> last (segmentIndices w) = endIdx w
         \<and> durationS w = sum_list (map (\<lambda>j. segDt (segs ! j)) (segmentIndices w))
         \<and> durationS w \<ge> minDurationS opts
         \<and> (\<forall>j. startIdx w \<le> j \<and> j \<le> endIdx w \<and> j \<notin> set (segmentIndices w)
               \<longrightarrow> \<not> isOver (threshold opts (localOf segs opts) j) (segs ! j))
         \<and> ((\<forall>s \<in> set segs. endGraceS opts \<le> segDt s) \<longrightarrow> contiguousRun (segmentIndices w))"
proof -
  from assms have m: "w \<in> set (foundWaves segs opts)" by (simp add: detectWavesV2_def)
  with foundWaves_ok [of segs opts] have "waveOk segs (length segs) w" "durationS w \<ge> minDurationS opts"
    by (auto simp: list_all_iff)
  then have a: "segmentIndices w \<noteq> [] \<and> sorted_wrt (<) (segmentIndices w)
         \<and> set (segmentIndices w) \<subseteq> {0..<length segs}
         \<and> hd (segmentIndices w) = startIdx w \<and> last (segmentIndices w) = endIdx w
         \<and> durationS w = sum_list (map (\<lambda>j. segDt (segs ! j)) (segmentIndices w))
         \<and> durationS w \<ge> minDurationS opts"
    by (auto simp: waveOk_def strictRun_def list_all_iff)
  have "gapsUnderBar opts (localOf segs opts) segs (Suc (endIdx w)) w"
    using closeAtEnd_gaps [OF gapOk_runLoop [of opts "localOf segs opts" segs "length segs"]] m
    by (simp add: foundWaves_def list_all_iff)
  then have b: "\<forall>j. startIdx w \<le> j \<and> j \<le> endIdx w \<and> j \<notin> set (segmentIndices w)
               \<longrightarrow> \<not> isOver (threshold opts (localOf segs opts) j) (segs ! j)"
    by (simp add: gapsUnderBar_def less_Suc_eq_le)
  have c: "(\<forall>s \<in> set segs. endGraceS opts \<le> segDt s) \<longrightarrow> contiguousRun (segmentIndices w)"
  proof
    assume g: "\<forall>s \<in> set segs. endGraceS opts \<le> segDt s"
    show "contiguousRun (segmentIndices w)"
      using closeAtEnd_contig [OF contigOk_runLoop [OF g order_refl, of "localOf segs opts"], of opts] m
      by (simp add: foundWaves_def list_all_iff)
  qed
  show ?thesis using a b c by blast
qed

lemma upt_3: "[0..<3] = [0, 1, 2]"
  by (simp add: upt_rec)

lemma circularStdDeg_north: "circularStdDeg [Some 0, Some 0] = Some 0"
  by (simp add: circularStdDeg_def toRad_def)

lemma foundWaves_pausedTrack: "foundWaves pausedTrack pausedOpts = [pausedWave]"
  by (simp add: foundWaves_def localOf_def pausedOpts_def fixedOpts_def pausedTrack_def northSeg_def
      pausedWave_def runLoop_def closeAtEnd_def step_def threshold_def initState_def segDt_def
      js_ge_def js_gt_def finiteOr0_def orZero_def dropOf_def newWave_def upt_3 Let_def)

lemma detectWavesV2_pausedTrack: "detectWavesV2 pausedTrack pausedOpts = [pausedWave]"
  by (simp add: detectWavesV2_def foundWaves_pausedTrack stableWave_def)
     (simp add: pausedWave_def pausedOpts_def fixedOpts_def circularStdDeg_north)

lemma foundWaves_paused_short_grace: "foundWaves pausedTrack fixedOpts = [firstRide, lastRide]"
  by (simp add: foundWaves_def localOf_def fixedOpts_def pausedTrack_def northSeg_def
      firstRide_def lastRide_def runLoop_def closeAtEnd_def step_def threshold_def initState_def
      segDt_def js_ge_def js_gt_def finiteOr0_def orZero_def dropOf_def newWave_def upt_3 Let_def)

lemma circularStdDeg_one_north: "circularStdDeg [Some 0] = Some 0"
  by (simp add: circularStdDeg_def toRad_def)

lemma detectWavesV2_paused_short_grace:
  "detectWavesV2 pausedTrack fixedOpts = [firstRide, lastRide]"
  by (simp add: detectWavesV2_def foundWaves_paused_short_grace stableWave_def)
     (simp add: firstRide_def lastRide_def fixedOpts_def circularStdDeg_one_north)

theorem detectWavesV2_members_witness:
  "pausedWave \<in> set (detectWavesV2 pausedTrack pausedOpts)
   \<and> segmentIndices pausedWave = [0, 2] \<and> startIdx pausedWave = 0 \<and> endIdx pausedWave = 2
   \<and> set (segmentIndices pausedWave) \<subseteq> {0..<length pausedTrack}
   \<and> durationS pausedWave = segDt (pausedTrack ! 0) + segDt (pausedTrack ! 2)
   \<and> durationS pausedWave \<ge> minDurationS pausedOpts
   \<and> \<not> isOver (threshold pausedOpts (localOf pausedTrack pausedOpts) (Suc 0)) (pausedTrack ! Suc 0)
   \<and> firstRide \<in> set (detectWavesV2 pausedTrack fixedOpts)
   \<and> list_all (\<lambda>s. endGraceS fixedOpts \<le> segDt s) pausedTrack
   \<and> contiguousRun (segmentIndices firstRide)"
proof -
  have m: "pausedWave \<in> set (detectWavesV2 pausedTrack pausedOpts)"
    by (simp add: detectWavesV2_pausedTrack)
  have i: "segmentIndices pausedWave = [0, 2]" "startIdx pausedWave = 0" "endIdx pausedWave = 2"
    by (simp_all add: pausedWave_def)
  note T = detectWavesV2_members [OF m]
  have a: "set (segmentIndices pausedWave) \<subseteq> {0..<length pausedTrack}
      \<and> durationS pausedWave = segDt (pausedTrack ! 0) + segDt (pausedTrack ! 2)
      \<and> durationS pausedWave \<ge> minDurationS pausedOpts"
    using T i by simp
  have "startIdx pausedWave \<le> Suc 0 \<and> Suc 0 \<le> endIdx pausedWave
        \<and> Suc 0 \<notin> set (segmentIndices pausedWave)"
    using i by simp
  then have g: "\<not> isOver (threshold pausedOpts (localOf pausedTrack pausedOpts) (Suc 0))
                  (pausedTrack ! Suc 0)"
    using T by blast
  have f: "firstRide \<in> set (detectWavesV2 pausedTrack fixedOpts)"
    by (simp add: detectWavesV2_paused_short_grace)
  have l: "list_all (\<lambda>s. endGraceS fixedOpts \<le> segDt s) pausedTrack"
    by (simp add: pausedTrack_def northSeg_def fixedOpts_def segDt_def)
  then have "\<forall>s \<in> set pausedTrack. endGraceS fixedOpts \<le> segDt s" by (simp add: list_all_iff)
  then have c: "contiguousRun (segmentIndices firstRide)"
    using detectWavesV2_members [OF f] by blast
  show ?thesis using m i a g f l c by blast
qed

text \<open>
  The claim as stated fails: on the paused track the detector returns one wave whose
  members are the segments 0 and 2, without the segment 1 between them.
\<close>

theorem detectWavesV2_contiguous_counterexample:
  "map segmentIndices (detectWavesV2 pausedTrack pausedOpts) = [[0, 2]]
   \<and> \<not> contiguousRun [0, 2]"
  by (simp add: detectWavesV2_pausedTrack contiguousRun_def upt_rec) (simp add: pausedWave_def)



subsection \<open>The branches of the segmenter\<close>

lemma runLoop_Suc:
  "runLoop opts local segs (Suc k) =
     step opts (threshold opts local k) k (segs ! k) (runLoop opts local segs k)"
  by (simp add: runLoop_def)

lemma peakOk_step: "peakOk st \<Longrightarrow> peakOk (step opts thr i s st)"
  by (auto simp: peakOk_def step_def Let_def newWave_def js_gt_def finiteOr0_def
      split: option.splits)

lemma peakOk_runLoop: "peakOk (runLoop opts local segs k)"
  by (induction k) (simp_all add: runLoop_Suc peakOk_step, simp add: runLoop_def peakOk_def initState_def)

lemma graceOk_step: "0 < endGraceS opts \<Longrightarrow> graceOk opts st \<Longrightarrow> graceOk opts (step opts thr i s st)"
  by (auto simp: graceOk_def step_def Let_def split: option.splits)

lemma graceOk_runLoop: "0 < endGraceS opts \<Longrightarrow> graceOk opts (runLoop opts local segs k)"
  by (induction k) (simp_all add: runLoop_Suc graceOk_step, simp add: runLoop_def graceOk_def initState_def)

text \<open>The two branches that extend an open candidate.\<close>

lemma step_over_open:
  assumes "cur st = Some c" "peak c = maxKmh c" "0 \<le> peak c" "isOver thr s"
  shows "step opts thr i s st
         = st\<lparr> cur := Some (extendWith i s c), timeOver := timeOver st + segDt s, timeUnderPeak := 0 \<rparr>"
  using assms
  by (cases "speedKmh s"; cases "bearingDeg s")
     (auto simp: step_def isOver_def Let_def extendWith_def js_gt_def js_ge_def finiteOr0_def max_def)

lemma step_continue:
  assumes "cur st = Some c" "peak c = maxKmh c" "0 \<le> peak c" "\<not> isOver thr s"
    "dropOf c s < dropPct opts"
  shows "step opts thr i s st = st\<lparr> cur := Some (extendWith i s c), timeUnderPeak := 0 \<rparr>"
  using assms
  by (cases "speedKmh s"; cases "bearingDeg s")
     (auto simp: step_def isOver_def Let_def extendWith_def js_gt_def finiteOr0_def max_def)

lemma step_grace:
  assumes "cur st = Some c" "\<not> isOver thr s" "dropOf c s \<ge> dropPct opts"
    "timeUnderPeak st + segDt s < endGraceS opts"
  shows "step opts thr i s st = st\<lparr> timeUnderPeak := timeUnderPeak st + segDt s \<rparr>"
  using assms by (auto simp: step_def isOver_def Let_def)

lemma step_close:
  assumes "cur st = Some c" "\<not> isOver thr s" "dropOf c s \<ge> dropPct opts"
    "timeUnderPeak st + segDt s \<ge> endGraceS opts"
  shows "step opts thr i s st
         = st\<lparr> found := emitOrDrop opts c (found st), cur := None, timeOver := 0, timeUnderPeak := 0 \<rparr>"
  using assms by (auto simp: step_def isOver_def Let_def emitOrDrop_def)

lemma step_idle_start:
  assumes "cur st = None" "isOver thr s"
  shows "\<exists>c. cur (step opts thr i s st) = Some c \<and> startIdx c = i \<and> segmentIndices c = [i]
            \<and> peak c = max 0 (finiteOr0 (speedKmh s))"
  using assms
  by (cases "speedKmh s"; cases "bearingDeg s")
     (auto simp: step_def isOver_def Let_def newWave_def js_gt_def js_ge_def finiteOr0_def max_def)

lemma step_idle_stay:
  assumes "cur st = None" "\<not> isOver thr s"
  shows "step opts thr i s st = st"
  using assms by (auto simp: step_def isOver_def Let_def)

lemma closeAtEnd_open: "cur st = Some c \<Longrightarrow> closeAtEnd opts st = emitOrDrop opts c (found st)"
  by (simp add: closeAtEnd_def emitOrDrop_def)

text \<open>
  Claim C2.  Let a candidate \<open>c\<close> be open before segment \<open>k\<close>, whose speed \<open>v\<close> is
  under the threshold.  The drop is \<open>100 * (1 - v / peak)\<close>, or 100 when the peak is 0.
  When the drop is below \<open>dropPct\<close> the segment is folded into the candidate and the
  grace timer is reset, and an over-threshold segment is folded in the same way.  When the
  drop reaches \<open>dropPct\<close> the elapsed time is added to the grace timer; once the timer
  reaches \<open>endGraceS\<close> the candidate closes, it is emitted exactly when it lasts at least
  \<open>minDurationS\<close> and has a member, and the detector is idle again.  A candidate that is
  open at the end of the sequence gets the same verdict, whatever the grace timer says.
\<close>

theorem under_threshold_segment:
  assumes inr: "k < length segs"
    and act: "cur (runLoop opts local segs k) = Some c"
    and sp: "speedKmh (segs ! k) = Some v"
    and under: "v < threshold opts local k"
  shows
    "dropOf c (segs ! k) = (if peak c = 0 then 100 else 100 * (1 - v / peak c))
     \<and> (dropOf c (segs ! k) < dropPct opts \<longrightarrow>
          runLoop opts local segs (Suc k)
            = (runLoop opts local segs k)\<lparr> cur := Some (extendWith k (segs ! k) c), timeUnderPeak := 0 \<rparr>
          \<and> (\<forall>thr'. isOver thr' (segs ! k) \<longrightarrow>
                step opts thr' k (segs ! k) (runLoop opts local segs k)
                  = (runLoop opts local segs k)\<lparr> cur := Some (extendWith k (segs ! k) c),
                       timeOver := timeOver (runLoop opts local segs k) + segDt (segs ! k),
                       timeUnderPeak := 0 \<rparr>))
     \<and> (dropOf c (segs ! k) \<ge> dropPct opts
          \<and> timeUnderPeak (runLoop opts local segs k) + segDt (segs ! k) < endGraceS opts \<longrightarrow>
          runLoop opts local segs (Suc k)
            = (runLoop opts local segs k)\<lparr> timeUnderPeak :=
                 timeUnderPeak (runLoop opts local segs k) + segDt (segs ! k) \<rparr>)
     \<and> (dropOf c (segs ! k) \<ge> dropPct opts
          \<and> timeUnderPeak (runLoop opts local segs k) + segDt (segs ! k) \<ge> endGraceS opts \<longrightarrow>
          runLoop opts local segs (Suc k)
            = (runLoop opts local segs k)\<lparr>
                 found := (if durationS c \<ge> minDurationS opts \<and> segmentIndices c \<noteq> []
                           then found (runLoop opts local segs k) @ [c]
                           else found (runLoop opts local segs k)),
                 cur := None, timeOver := 0, timeUnderPeak := 0 \<rparr>)
     \<and> (\<forall>c'. cur (runLoop opts local segs (length segs)) = Some c' \<longrightarrow>
          closeAtEnd opts (runLoop opts local segs (length segs))
            = (if durationS c' \<ge> minDurationS opts \<and> segmentIndices c' \<noteq> []
               then found (runLoop opts local segs (length segs)) @ [c']
               else found (runLoop opts local segs (length segs))))"
proof -
  define st where "st = runLoop opts local segs k"
  define s where "s = segs ! k"
  have pk: "peak c = maxKmh c" "0 \<le> peak c"
    using peakOk_runLoop [of opts local segs k] act by (simp_all add: peakOk_def)
  have no: "\<not> isOver (threshold opts local k) s"
    using sp under by (simp add: isOver_def js_ge_def s_def)
  have act': "cur st = Some c" using act by (simp add: st_def)
  have nx: "runLoop opts local segs (Suc k) = step opts (threshold opts local k) k s st"
    by (simp add: runLoop_Suc st_def s_def)
  have 1: "dropOf c s = (if peak c = 0 then 100 else 100 * (1 - v / peak c))"
    using sp pk by (simp add: dropOf_def orZero_def s_def)
  have 2: "dropOf c s < dropPct opts \<longrightarrow>
          runLoop opts local segs (Suc k) = st\<lparr> cur := Some (extendWith k s c), timeUnderPeak := 0 \<rparr>
          \<and> (\<forall>thr'. isOver thr' s \<longrightarrow>
                step opts thr' k s st
                  = st\<lparr> cur := Some (extendWith k s c), timeOver := timeOver st + segDt s,
                       timeUnderPeak := 0 \<rparr>)"
    using step_continue [OF act' pk no] step_over_open [OF act' pk] nx by simp
  have 3: "dropOf c s \<ge> dropPct opts \<and> timeUnderPeak st + segDt s < endGraceS opts \<longrightarrow>
          runLoop opts local segs (Suc k) = st\<lparr> timeUnderPeak := timeUnderPeak st + segDt s \<rparr>"
    using step_grace [OF act' no] nx by simp
  have 4: "dropOf c s \<ge> dropPct opts \<and> timeUnderPeak st + segDt s \<ge> endGraceS opts \<longrightarrow>
          runLoop opts local segs (Suc k)
            = st\<lparr> found := (if durationS c \<ge> minDurationS opts \<and> segmentIndices c \<noteq> []
                             then found st @ [c] else found st),
                   cur := None, timeOver := 0, timeUnderPeak := 0 \<rparr>"
    using step_close [OF act' no] nx by (simp add: emitOrDrop_def)
  have 5: "\<forall>c'. cur (runLoop opts local segs (length segs)) = Some c' \<longrightarrow>
          closeAtEnd opts (runLoop opts local segs (length segs))
            = (if durationS c' \<ge> minDurationS opts \<and> segmentIndices c' \<noteq> []
               then found (runLoop opts local segs (length segs)) @ [c']
               else found (runLoop opts local segs (length segs)))"
    by (simp add: closeAtEnd_open emitOrDrop_def)
  show ?thesis using 1 2 3 4 5 unfolding st_def s_def by blast
qed

text \<open>
  Claim C10.  With a positive grace period, a segment whose elapsed time is undefined or
  not positive never closes an open candidate: it adds 0 to the grace timer; when the drop
  criterion is met the state does not change at all, so the segment is not a member;
  otherwise the segment is folded in with no duration.  The candidate stays open and
  nothing is emitted at this segment.
\<close>

theorem untimed_segment_keeps_candidate:
  assumes inr: "k < length segs"
    and grace: "0 < endGraceS opts"
    and act: "cur (runLoop opts local segs k) = Some c"
    and untimed: "dtS (segs ! k) = None \<or> (\<exists>d. dtS (segs ! k) = Some d \<and> d \<le> 0)"
  shows
    "segDt (segs ! k) = 0
     \<and> (dropOf c (segs ! k) \<ge> dropPct opts \<longrightarrow>
          runLoop opts local segs (Suc k) = runLoop opts local segs k)
     \<and> (dropOf c (segs ! k) < dropPct opts \<longrightarrow>
          runLoop opts local segs (Suc k)
            = (runLoop opts local segs k)\<lparr> cur := Some (extendWith k (segs ! k) c), timeUnderPeak := 0 \<rparr>)
     \<and> cur (runLoop opts local segs (Suc k)) \<noteq> None
     \<and> found (runLoop opts local segs (Suc k)) = found (runLoop opts local segs k)"
proof -
  define st where "st = runLoop opts local segs k"
  define s where "s = segs ! k"
  have pk: "peak c = maxKmh c" "0 \<le> peak c"
    using peakOk_runLoop [of opts local segs k] act by (simp_all add: peakOk_def)
  have act': "cur st = Some c" using act by (simp add: st_def)
  have z: "segDt s = 0" using untimed by (auto simp: segDt_def s_def)
  then have no: "\<not> isOver (threshold opts local k) s" by (simp add: isOver_def)
  have t: "timeUnderPeak st < endGraceS opts"
    using graceOk_runLoop [OF grace, of local segs k] act by (simp add: graceOk_def st_def)
  have nx: "runLoop opts local segs (Suc k) = step opts (threshold opts local k) k s st"
    by (simp add: runLoop_Suc st_def s_def)
  have a: "dropOf c s \<ge> dropPct opts \<longrightarrow> runLoop opts local segs (Suc k) = st"
    using step_grace [OF act' no, of opts k] t z nx by simp
  have b: "dropOf c s < dropPct opts \<longrightarrow>
      runLoop opts local segs (Suc k) = st\<lparr> cur := Some (extendWith k s c), timeUnderPeak := 0 \<rparr>"
    using step_continue [OF act' pk no] nx by simp
  have c: "cur (runLoop opts local segs (Suc k)) \<noteq> None"
    using a b act' by (cases "dropOf c s \<ge> dropPct opts") auto
  have d: "found (runLoop opts local segs (Suc k)) = found st"
    using a b by (cases "dropOf c s \<ge> dropPct opts") auto
  show ?thesis using z a b c d unfolding st_def s_def by blast
qed

subsection \<open>The trailing window\<close>

lemma foldl_plus_sum: "foldl (\<lambda>acc v. acc + f v) z xs = z + sum_list (map f xs)" for z :: real
  by (induction xs arbitrary: z) (simp_all add: add.assoc)

lemma sum_list_insort: "sum_list (map f (insort x xs)) = f x + sum_list (map f xs)"
  for f :: "real \<Rightarrow> real"
  by (induction xs) (simp_all add: insort_key.simps)

lemma sum_list_sort: "sum_list (map f (sort xs)) = sum_list (map f xs)" for f :: "real \<Rightarrow> real"
  by (induction xs) (simp_all add: sum_list_insort)

lemma windowStat_spec:
  assumes "xs \<noteq> []"
  shows "windowStat xs = (specMedian xs, specStd xs)"
proof -
  have m: "foldl (\<lambda>acc v. acc + v) 0 (sort xs) / real (length xs) = specMean xs"
    using foldl_plus_sum [of "\<lambda>v. v" 0 "sort xs"] sum_list_sort [of "\<lambda>v. v" xs]
    by (simp add: specMean_def)
  have v: "foldl (\<lambda>acc v. acc + (v - specMean xs) * (v - specMean xs)) 0 (sort xs)
           = sum_list (map (\<lambda>x. (x - specMean xs) ^ 2) xs)"
    using foldl_plus_sum [of "\<lambda>v. (v - specMean xs) * (v - specMean xs)" 0 "sort xs"]
      sum_list_sort [of "\<lambda>v. (v - specMean xs) * (v - specMean xs)" xs]
    by (simp add: power2_eq_square)
  show ?thesis using assms
    by (simp add: windowStat_def Let_def m v specMedian_def specStd_def odd_iff_mod_2_eq_one)
qed

lemma slice_upt:
  assumes "l \<le> i" "i < length xs"
  shows "take (i + 1 - l) (drop l xs) = map (\<lambda>j. xs ! j) [l..<Suc i]"
proof (rule nth_equalityI)
  show "length (take (i + 1 - l) (drop l xs)) = length (map (\<lambda>j. xs ! j) [l..<Suc i])"
    using assms by simp
next
  fix j assume "j < length (take (i + 1 - l) (drop l xs))"
  then have j: "j < i + 1 - l" by simp
  then show "take (i + 1 - l) (drop l xs) ! j = map (\<lambda>j. xs ! j) [l..<Suc i] ! j"
    using assms by (simp add: nth_map_upt del: upt_Suc)
qed

lemma span_drop_first:
  "l < Suc r \<Longrightarrow> windowSpan segs l r - finiteOr0 (dtS (segs ! l)) = windowSpan segs (Suc l) r"
  by (simp add: windowSpan_def upt_conv_Cons del: upt_Suc)

lemma shrinkWindow_props:
  assumes "left \<le> right" "timeSpan = windowSpan segs left right"
  shows "left \<le> fst (shrinkWindow w segs right left timeSpan)
       \<and> fst (shrinkWindow w segs right left timeSpan) \<le> right
       \<and> snd (shrinkWindow w segs right left timeSpan)
           = windowSpan segs (fst (shrinkWindow w segs right left timeSpan)) right
       \<and> (snd (shrinkWindow w segs right left timeSpan) \<le> w
            \<or> fst (shrinkWindow w segs right left timeSpan) = right)"
  using assms
proof (induction w segs right left timeSpan rule: shrinkWindow.induct)
  case (1 w segs right left timeSpan)
  show ?case
  proof (cases "timeSpan > w \<and> left < right")
    case True
    have s: "timeSpan - finiteOr0 (dtS (segs ! left)) = windowSpan segs (left + 1) right"
      using "1.prems" True span_drop_first [of left right segs] by simp
    have l: "left + 1 \<le> right" using True by simp
    have e: "shrinkWindow w segs right left timeSpan
             = shrinkWindow w segs right (left + 1) (timeSpan - finiteOr0 (dtS (segs ! left)))"
      using True by (subst shrinkWindow.simps) simp
    define r where "r = shrinkWindow w segs right (left + 1) (timeSpan - finiteOr0 (dtS (segs ! left)))"
    have "left + 1 \<le> fst r \<and> fst r \<le> right \<and> snd r = windowSpan segs (fst r) right
          \<and> (snd r \<le> w \<or> fst r = right)"
      using "1.IH" [OF True l s] unfolding r_def .
    then show ?thesis unfolding e r_def [symmetric] by linarith
  next
    case False
    have e: "shrinkWindow w segs right left timeSpan = (left, timeSpan)"
      using False by (subst shrinkWindow.simps) auto
    show ?thesis unfolding e using False "1.prems" by auto
  qed
qed

lemma shrinkWindow_passed:
  assumes "left \<le> right" "timeSpan = windowSpan segs left right"
  shows "\<forall>l. left \<le> l \<and> l < fst (shrinkWindow w segs right left timeSpan)
            \<longrightarrow> w < windowSpan segs l right"
  using assms
proof (induction w segs right left timeSpan rule: shrinkWindow.induct)
  case (1 w segs right left timeSpan)
  show ?case
  proof (cases "timeSpan > w \<and> left < right")
    case True
    have s: "timeSpan - finiteOr0 (dtS (segs ! left)) = windowSpan segs (left + 1) right"
      using "1.prems" True span_drop_first [of left right segs] by simp
    have l: "left + 1 \<le> right" using True by simp
    have e: "shrinkWindow w segs right left timeSpan
             = shrinkWindow w segs right (left + 1) (timeSpan - finiteOr0 (dtS (segs ! left)))"
      using True by (subst shrinkWindow.simps) simp
    define r where "r = shrinkWindow w segs right (left + 1) (timeSpan - finiteOr0 (dtS (segs ! left)))"
    have ih: "\<forall>l. left + 1 \<le> l \<and> l < fst r \<longrightarrow> w < windowSpan segs l right"
      using "1.IH" [OF True l s] unfolding r_def .
    have h: "w < windowSpan segs left right" using True "1.prems" by simp
    show ?thesis unfolding e r_def [symmetric]
    proof (intro allI impI)
      fix l assume a: "left \<le> l \<and> l < fst r"
      show "w < windowSpan segs l right"
      proof (cases "l = left")
        case True
        then show ?thesis using h by simp
      next
        case False
        then have "left + 1 \<le> l" using a by simp
        then show ?thesis using ih a by blast
      qed
    qed
  next
    case False
    have e: "shrinkWindow w segs right left timeSpan = (left, timeSpan)"
      using False by (subst shrinkWindow.simps) auto
    show ?thesis unfolding e by simp
  qed
qed

lemma localLoop_Suc:
  "localLoop w segs (Suc k)
     = localStep w segs (map (\<lambda>s. orZero (speedKmh s)) segs) (localLoop w segs k) k"
  by (simp add: localLoop_def)

lemma localLoop_0: "localLoop w segs 0 = (0, 0, replicate (length segs) None)"
  by (simp add: localLoop_def)

lemma localLoop_inv:
  "fst (localLoop w segs k) \<le> k
   \<and> fst (snd (localLoop w segs k))
       = sum_list (map (\<lambda>j. finiteOr0 (dtS (segs ! j))) [fst (localLoop w segs k)..<k])
   \<and> length (snd (snd (localLoop w segs k))) = length segs"
proof (induction k)
  case 0
  show ?case by (simp add: localLoop_0)
next
  case (Suc k)
  obtain left timeSpan out where st: "localLoop w segs k = (left, timeSpan, out)"
    by (cases "localLoop w segs k") auto
  have l: "left \<le> k" and sp: "timeSpan = sum_list (map (\<lambda>j. finiteOr0 (dtS (segs ! j))) [left..<k])"
    and len: "length out = length segs"
    using Suc.IH st by simp_all
  define r where "r = shrinkWindow w segs k left (timeSpan + finiteOr0 (dtS (segs ! k)))"
  have sp': "timeSpan + finiteOr0 (dtS (segs ! k)) = windowSpan segs left k"
    using l sp by (simp add: windowSpan_def)
  have p: "left \<le> fst r \<and> fst r \<le> k \<and> snd r = windowSpan segs (fst r) k
           \<and> (snd r \<le> w \<or> fst r = k)"
    unfolding r_def by (rule shrinkWindow_props [OF l sp'])
  have nx: "localLoop w segs (Suc k)
            = (fst r, snd r, out[k := Some (windowStat (take (k + 1 - fst r)
                 (drop (fst r) (map (\<lambda>s. orZero (speedKmh s)) segs))))])"
    by (simp add: localLoop_Suc st localStep_def Let_def r_def)
  show ?case using p len unfolding nx by (simp add: windowSpan_def)
qed

lemma localLoop_step_facts:
  "fst (localLoop w segs k) \<le> fst (localLoop w segs (Suc k))
   \<and> fst (localLoop w segs (Suc k)) \<le> k
   \<and> (windowSpan segs (fst (localLoop w segs (Suc k))) k \<le> w \<or> fst (localLoop w segs (Suc k)) = k)
   \<and> snd (snd (localLoop w segs (Suc k)))
       = (snd (snd (localLoop w segs k)))[k := Some (windowStat (take (k + 1 - fst (localLoop w segs (Suc k)))
                 (drop (fst (localLoop w segs (Suc k))) (map (\<lambda>s. orZero (speedKmh s)) segs))))]"
proof -
  obtain left timeSpan out where st: "localLoop w segs k = (left, timeSpan, out)"
    by (cases "localLoop w segs k") auto
  have l: "left \<le> k" and sp: "timeSpan = sum_list (map (\<lambda>j. finiteOr0 (dtS (segs ! j))) [left..<k])"
    using localLoop_inv [of w segs k] st by simp_all
  define r where "r = shrinkWindow w segs k left (timeSpan + finiteOr0 (dtS (segs ! k)))"
  have sp': "timeSpan + finiteOr0 (dtS (segs ! k)) = windowSpan segs left k"
    using l sp by (simp add: windowSpan_def)
  have p: "left \<le> fst r \<and> fst r \<le> k \<and> snd r = windowSpan segs (fst r) k
           \<and> (snd r \<le> w \<or> fst r = k)"
    unfolding r_def by (rule shrinkWindow_props [OF l sp'])
  have nx: "localLoop w segs (Suc k)
            = (fst r, snd r, out[k := Some (windowStat (take (k + 1 - fst r)
                 (drop (fst r) (map (\<lambda>s. orZero (speedKmh s)) segs))))])"
    by (simp add: localLoop_Suc st localStep_def Let_def r_def)
  show ?thesis using p unfolding nx st by auto
qed

lemma localLoop_passed:
  "\<forall>l. fst (localLoop w segs k) \<le> l \<and> l < fst (localLoop w segs (Suc k))
        \<longrightarrow> w < windowSpan segs l k"
proof -
  obtain left timeSpan out where st: "localLoop w segs k = (left, timeSpan, out)"
    by (cases "localLoop w segs k") auto
  have l: "left \<le> k" and sp: "timeSpan = sum_list (map (\<lambda>j. finiteOr0 (dtS (segs ! j))) [left..<k])"
    using localLoop_inv [of w segs k] st by simp_all
  define r where "r = shrinkWindow w segs k left (timeSpan + finiteOr0 (dtS (segs ! k)))"
  have sp': "timeSpan + finiteOr0 (dtS (segs ! k)) = windowSpan segs left k"
    using l sp by (simp add: windowSpan_def)
  have p: "\<forall>l. left \<le> l \<and> l < fst r \<longrightarrow> w < windowSpan segs l k"
    unfolding r_def by (rule shrinkWindow_passed [OF l sp'])
  have nx: "fst (localLoop w segs (Suc k)) = fst r"
    by (simp add: localLoop_Suc st localStep_def Let_def r_def)
  show ?thesis using p unfolding nx st by simp
qed

lemma leftBefore_eq: "leftBefore w segs i = (if i = 0 then 0 else leftAt w segs (i - 1))"
  by (cases i) (simp_all add: leftBefore_def leftAt_def localLoop_0)

lemma leftAt_mono: "j \<le> i \<Longrightarrow> leftAt w segs j \<le> leftAt w segs i"
  unfolding leftAt_def
  by (rule lift_Suc_mono_le [of "\<lambda>k. fst (localLoop w segs (Suc k))"])
     (use localLoop_step_facts in blast)+

lemma localLoop_out_stable:
  assumes "i < k" "k \<le> k'"
  shows "snd (snd (localLoop w segs k')) ! i = snd (snd (localLoop w segs k)) ! i"
  using assms(2)
proof (induction k' rule: dec_induct)
  case base
  show ?case by simp
next
  case (step n)
  have "snd (snd (localLoop w segs (Suc n))) ! i = snd (snd (localLoop w segs n)) ! i"
    using localLoop_step_facts [of w segs n] step.hyps assms(1) by simp
  then show ?case using step by simp
qed

lemma computeLocalStats_at:
  assumes "0 < w" "i < length segs"
  shows "computeLocalStats segs w ! i
         = Some (windowStat (windowSpeeds segs (leftAt w segs i) i))"
proof -
  have ne: "segs \<noteq> []" using assms by auto
  have l: "leftAt w segs i \<le> i"
    using localLoop_step_facts [of w segs i] by (simp add: leftAt_def)
  have "computeLocalStats segs w ! i = snd (snd (localLoop w segs (length segs))) ! i"
    using assms ne by (simp add: computeLocalStats_def)
  also have "\<dots> = snd (snd (localLoop w segs (Suc i))) ! i"
    using assms by (intro localLoop_out_stable) simp_all
  also have "\<dots> = Some (windowStat (take (i + 1 - leftAt w segs i)
                 (drop (leftAt w segs i) (map (\<lambda>s. orZero (speedKmh s)) segs))))"
    using localLoop_step_facts [of w segs i] localLoop_inv [of w segs i] assms
    by (simp add: leftAt_def)
  also have "take (i + 1 - leftAt w segs i) (drop (leftAt w segs i) (map (\<lambda>s. orZero (speedKmh s)) segs))
             = windowSpeeds segs (leftAt w segs i) i"
    using slice_upt [OF l, of "map (\<lambda>s. orZero (speedKmh s)) segs"] assms
    by (simp add: windowSpeeds_def del: upt_Suc)
  finally show ?thesis .
qed

lemma length_computeLocalStats: "length (computeLocalStats segs w) = length segs"
  using localLoop_inv [of w segs "length segs"] by (simp add: computeLocalStats_def)

text \<open>
  Claim C9.  For a positive window length \<open>computeLocalStats\<close> yields one pair per
  segment.  The pair of index \<open>i\<close> is the median and the sample standard deviation
  (denominator \<open>n - 1\<close>, at least 1) of the speeds of the window \<open>[l..i]\<close>, where \<open>l\<close>
  is the left pointer after the iteration for \<open>i\<close>.  The left pointer starts at 0 and
  never moves back; the elapsed time of the window is at most the window length unless
  the window is the single segment \<open>i\<close>; and the pointer moves only while the window is
  too long: the window from every position it passed in the iteration for \<open>i\<close> up to
  \<open>i\<close> spans more than the window length.
\<close>

theorem computeLocalStats_window:
  assumes "0 < w" "i < length segs"
  shows "length (computeLocalStats segs w) = length segs
     \<and> computeLocalStats segs w ! i
         = Some (specMedian (windowSpeeds segs (leftAt w segs i) i),
                 specStd (windowSpeeds segs (leftAt w segs i) i))
     \<and> leftAt w segs i \<le> i
     \<and> (\<forall>j \<le> i. leftAt w segs j \<le> leftAt w segs i)
     \<and> (windowSpan segs (leftAt w segs i) i \<le> w \<or> leftAt w segs i = i)
     \<and> leftBefore w segs i = (if i = 0 then 0 else leftAt w segs (i - 1))
     \<and> leftBefore w segs i \<le> leftAt w segs i
     \<and> (\<forall>l. leftBefore w segs i \<le> l \<and> l < leftAt w segs i \<longrightarrow> w < windowSpan segs l i)"
proof -
  have l: "leftAt w segs i \<le> i"
    and s: "windowSpan segs (leftAt w segs i) i \<le> w \<or> leftAt w segs i = i"
    and b: "leftBefore w segs i \<le> leftAt w segs i"
    using localLoop_step_facts [of w segs i] by (simp_all add: leftAt_def leftBefore_def)
  have ne: "windowSpeeds segs (leftAt w segs i) i \<noteq> []"
    using l by (simp add: windowSpeeds_def)
  have p: "\<forall>l. leftBefore w segs i \<le> l \<and> l < leftAt w segs i \<longrightarrow> w < windowSpan segs l i"
    using localLoop_passed [of w segs i] by (simp add: leftAt_def leftBefore_def)
  have a: "length (computeLocalStats segs w) = length segs
     \<and> computeLocalStats segs w ! i
         = Some (specMedian (windowSpeeds segs (leftAt w segs i) i),
                 specStd (windowSpeeds segs (leftAt w segs i) i))
     \<and> leftAt w segs i \<le> i
     \<and> (\<forall>j \<le> i. leftAt w segs j \<le> leftAt w segs i)
     \<and> (windowSpan segs (leftAt w segs i) i \<le> w \<or> leftAt w segs i = i)"
    using computeLocalStats_at [OF assms] windowStat_spec [OF ne] l s leftAt_mono
      length_computeLocalStats
    by simp
  show ?thesis using a b p leftBefore_eq [of w segs i] by blast
qed

subsection \<open>Start of a candidate\<close>

lemma isOver_iff:
  "isOver thr s \<longleftrightarrow> (\<exists>v. speedKmh s = Some v \<and> v \<ge> thr) \<and> (\<exists>d. dtS s = Some d \<and> d > 0)"
  by (auto simp: isOver_def js_ge_def segDt_def split: option.splits)

lemma threshold_cases:
  "(\<not> useAdaptive opts \<longrightarrow> threshold opts (localOf segs opts) k = baseThresholdKmh opts)
   \<and> (useAdaptive opts \<and> winSec opts \<le> 0 \<and> k < length segs \<longrightarrow>
        threshold opts (localOf segs opts) k = baseThresholdKmh opts)
   \<and> (useAdaptive opts \<and> 0 < winSec opts \<and> k < length segs \<longrightarrow>
        (\<exists>median std. computeLocalStats segs (winSec opts) ! k = Some (median, std)
           \<and> threshold opts (localOf segs opts) k
               = max (baseThresholdKmh opts) (median + kSigma opts * std)))"
proof (intro conjI impI)
  assume "\<not> useAdaptive opts"
  then show "threshold opts (localOf segs opts) k = baseThresholdKmh opts"
    by (simp add: threshold_def)
next
  assume "useAdaptive opts \<and> winSec opts \<le> 0 \<and> k < length segs"
  then show "threshold opts (localOf segs opts) k = baseThresholdKmh opts"
    by (simp add: threshold_def localOf_def computeLocalStats_def)
next
  assume a: "useAdaptive opts \<and> 0 < winSec opts \<and> k < length segs"
  then have e: "computeLocalStats segs (winSec opts) ! k
      = Some (windowStat (windowSpeeds segs (leftAt (winSec opts) segs k) k))"
    by (simp add: computeLocalStats_at)
  obtain m sd where ms: "windowStat (windowSpeeds segs (leftAt (winSec opts) segs k) k) = (m, sd)"
    by (cases "windowStat (windowSpeeds segs (leftAt (winSec opts) segs k) k)") auto
  have "threshold opts (localOf segs opts) k = max (baseThresholdKmh opts) (m + kSigma opts * sd)"
    using a e ms by (simp add: threshold_def localOf_def length_computeLocalStats)
  then show "\<exists>median std. computeLocalStats segs (winSec opts) ! k = Some (median, std)
           \<and> threshold opts (localOf segs opts) k
               = max (baseThresholdKmh opts) (median + kSigma opts * std)"
    using e ms by simp
qed

lemma step_keeps_startIdx:
  "cur st = Some c \<Longrightarrow> cur (step opts thr i s st) = Some c' \<Longrightarrow> startIdx c' = startIdx c"
  by (cases "bearingDeg s") (auto simp: step_def Let_def split: if_splits)

lemma open_started_before:
  assumes "cur (runLoop opts local segs k) = Some c"
  shows "startIdx c < k"
proof -
  have "waveOk segs k c" using stateOk_runLoop [of opts segs k local] assms by (simp add: stateOk_def)
  then have "segmentIndices c \<noteq> []" "hd (segmentIndices c) = startIdx c"
    "\<forall>j \<in> set (segmentIndices c). j < k"
    by (simp_all add: waveOk_def strictRun_def list_all_iff)
  then show ?thesis using hd_in_set [of "segmentIndices c"] by metis
qed

lemma start_at_iff:
  "(\<exists>c'. cur (runLoop opts local segs (Suc k)) = Some c' \<and> startIdx c' = k)
   \<longleftrightarrow> (cur (runLoop opts local segs k) = None \<and> isOver (threshold opts local k) (segs ! k))"
proof (cases "cur (runLoop opts local segs k)")
  case None
  show ?thesis
  proof (cases "isOver (threshold opts local k) (segs ! k)")
    case True
    then show ?thesis using None step_idle_start [OF None True, of opts k]
      by (auto simp: runLoop_Suc)
  next
    case False
    then show ?thesis using None step_idle_stay [OF None False, of opts k]
      by (simp add: runLoop_Suc)
  qed
next
  case (Some c)
  have lt: "startIdx c < k" using Some by (rule open_started_before)
  have "\<not> (\<exists>c'. cur (runLoop opts local segs (Suc k)) = Some c' \<and> startIdx c' = k)"
  proof
    assume "\<exists>c'. cur (runLoop opts local segs (Suc k)) = Some c' \<and> startIdx c' = k"
    then obtain c' where c': "cur (runLoop opts local segs (Suc k)) = Some c'" "startIdx c' = k"
      by blast
    have "startIdx c' = startIdx c"
      using step_keeps_startIdx [OF Some] c'(1) by (simp add: runLoop_Suc)
    then show False using lt c'(2) by simp
  qed
  then show ?thesis using Some by simp
qed

lemma open_candidate_over:
  assumes "cur (runLoop opts local segs k) = Some c" "isOver (threshold opts local k) (segs ! k)"
  shows "cur (runLoop opts local segs (Suc k)) = Some (extendWith k (segs ! k) c)"
proof -
  have pk: "peak c = maxKmh c" "0 \<le> peak c"
    using peakOk_runLoop [of opts local segs k] assms(1) by (simp_all add: peakOk_def)
  show ?thesis using step_over_open [OF assms(1) pk assms(2), of opts k]
    by (simp add: runLoop_Suc)
qed

text \<open>
  Claim C3.  A candidate starts at segment \<open>k\<close> exactly when no candidate is open, the
  speed of the segment is at least the threshold and its elapsed time is positive: after
  the step a candidate with \<open>startIdx = k\<close> is open in this case and in no other.  While a
  candidate is open no other one starts: the open candidate keeps its \<open>startIdx\<close>, which
  is below \<open>k\<close>, and an over-threshold segment extends it.  The new candidate starts at
  \<open>k\<close> and its peak is the speed of the segment, a speed being non-negative.  The
  threshold is the fixed speed in non-adaptive mode and \<open>max fixed (median + kSigma * std)\<close>
  of the local statistics of the segment in adaptive mode with a positive window; without
  a window it is the fixed speed.
\<close>

theorem candidate_start:
  assumes "k < length segs"
  shows
    "((cur (runLoop opts (localOf segs opts) segs k) = None
        \<and> cur (runLoop opts (localOf segs opts) segs (Suc k)) \<noteq> None)
      \<longleftrightarrow> (cur (runLoop opts (localOf segs opts) segs k) = None
           \<and> (\<exists>v. speedKmh (segs ! k) = Some v \<and> v \<ge> threshold opts (localOf segs opts) k)
           \<and> (\<exists>d. dtS (segs ! k) = Some d \<and> d > 0)))
     \<and> (cur (runLoop opts (localOf segs opts) segs k) = None
          \<and> cur (runLoop opts (localOf segs opts) segs (Suc k)) \<noteq> None \<longrightarrow>
          (\<exists>c v. cur (runLoop opts (localOf segs opts) segs (Suc k)) = Some c
             \<and> speedKmh (segs ! k) = Some v
             \<and> startIdx c = k \<and> segmentIndices c = [k]
             \<and> peak c = max 0 v \<and> (0 \<le> v \<longrightarrow> peak c = v)))
     \<and> (\<not> useAdaptive opts \<longrightarrow> threshold opts (localOf segs opts) k = baseThresholdKmh opts)
     \<and> (useAdaptive opts \<and> 0 < winSec opts \<longrightarrow>
          (\<exists>median std. computeLocalStats segs (winSec opts) ! k = Some (median, std)
             \<and> threshold opts (localOf segs opts) k
                 = max (baseThresholdKmh opts) (median + kSigma opts * std)))
     \<and> (useAdaptive opts \<and> winSec opts \<le> 0 \<longrightarrow>
          threshold opts (localOf segs opts) k = baseThresholdKmh opts)
     \<and> ((\<exists>c'. cur (runLoop opts (localOf segs opts) segs (Suc k)) = Some c' \<and> startIdx c' = k)
          \<longleftrightarrow> (cur (runLoop opts (localOf segs opts) segs k) = None
               \<and> (\<exists>v. speedKmh (segs ! k) = Some v \<and> v \<ge> threshold opts (localOf segs opts) k)
               \<and> (\<exists>d. dtS (segs ! k) = Some d \<and> d > 0)))
     \<and> (\<forall>c c'. cur (runLoop opts (localOf segs opts) segs k) = Some c
              \<and> cur (runLoop opts (localOf segs opts) segs (Suc k)) = Some c'
            \<longrightarrow> startIdx c' = startIdx c \<and> startIdx c' < k)
     \<and> (\<forall>c. cur (runLoop opts (localOf segs opts) segs k) = Some c
              \<and> isOver (threshold opts (localOf segs opts) k) (segs ! k)
            \<longrightarrow> cur (runLoop opts (localOf segs opts) segs (Suc k))
                  = Some (extendWith k (segs ! k) c))"
proof -
  have 6: "(\<exists>c'. cur (runLoop opts (localOf segs opts) segs (Suc k)) = Some c' \<and> startIdx c' = k)
          \<longleftrightarrow> (cur (runLoop opts (localOf segs opts) segs k) = None
               \<and> (\<exists>v. speedKmh (segs ! k) = Some v \<and> v \<ge> threshold opts (localOf segs opts) k)
               \<and> (\<exists>d. dtS (segs ! k) = Some d \<and> d > 0))"
    using start_at_iff [of opts "localOf segs opts" segs k]
      isOver_iff [of "threshold opts (localOf segs opts) k" "segs ! k"] by simp
  have 7: "\<forall>c c'. cur (runLoop opts (localOf segs opts) segs k) = Some c
              \<and> cur (runLoop opts (localOf segs opts) segs (Suc k)) = Some c'
            \<longrightarrow> startIdx c' = startIdx c \<and> startIdx c' < k"
  proof (intro allI impI)
    fix c c'
    assume a: "cur (runLoop opts (localOf segs opts) segs k) = Some c
              \<and> cur (runLoop opts (localOf segs opts) segs (Suc k)) = Some c'"
    then have e: "startIdx c' = startIdx c"
      using step_keeps_startIdx [of "runLoop opts (localOf segs opts) segs k" c opts
          "threshold opts (localOf segs opts) k" k "segs ! k" c']
      by (simp add: runLoop_Suc)
    have "startIdx c < k" using a open_started_before by blast
    then show "startIdx c' = startIdx c \<and> startIdx c' < k" using e by simp
  qed
  have 8: "\<forall>c. cur (runLoop opts (localOf segs opts) segs k) = Some c
              \<and> isOver (threshold opts (localOf segs opts) k) (segs ! k)
            \<longrightarrow> cur (runLoop opts (localOf segs opts) segs (Suc k))
                  = Some (extendWith k (segs ! k) c)"
    using open_candidate_over by blast
  define st where "st = runLoop opts (localOf segs opts) segs k"
  define thr where "thr = threshold opts (localOf segs opts) k"
  define s where "s = segs ! k"
  define st' where "st' = runLoop opts (localOf segs opts) segs (Suc k)"
  have nx: "step opts thr k s st = st'"
    by (simp add: runLoop_Suc st_def s_def thr_def st'_def)
  have 1: "(cur st = None \<and> cur (step opts thr k s st) \<noteq> None)
      \<longleftrightarrow> (cur st = None \<and> (\<exists>v. speedKmh s = Some v \<and> v \<ge> thr) \<and> (\<exists>d. dtS s = Some d \<and> d > 0))"
  proof (cases "isOver thr s")
    case True
    then show ?thesis using step_idle_start [of st thr s opts k] isOver_iff [of thr s] by auto
  next
    case False
    then show ?thesis using step_idle_stay [of st thr s opts k] isOver_iff [of thr s] by auto
  qed
  have 2: "cur st = None \<and> cur (step opts thr k s st) \<noteq> None \<longrightarrow>
          (\<exists>c v. cur (step opts thr k s st) = Some c \<and> speedKmh s = Some v
             \<and> startIdx c = k \<and> segmentIndices c = [k]
             \<and> peak c = max 0 v \<and> (0 \<le> v \<longrightarrow> peak c = v))"
  proof
    assume a: "cur st = None \<and> cur (step opts thr k s st) \<noteq> None"
    then have o: "isOver thr s" using 1 isOver_iff [of thr s] by blast
    then obtain v where v: "speedKmh s = Some v" using isOver_iff [of thr s] by blast
    have n: "cur st = None" using a by simp
    from step_idle_start [OF n o, of opts k]
    obtain c where "cur (step opts thr k s st) = Some c" "startIdx c = k" "segmentIndices c = [k]"
      "peak c = max 0 (finiteOr0 (speedKmh s))" by blast
    then show "\<exists>c v. cur (step opts thr k s st) = Some c \<and> speedKmh s = Some v
             \<and> startIdx c = k \<and> segmentIndices c = [k]
             \<and> peak c = max 0 v \<and> (0 \<le> v \<longrightarrow> peak c = v)"
      using v by (auto simp: finiteOr0_def)
  qed
  have old: "((cur (runLoop opts (localOf segs opts) segs k) = None
        \<and> cur (runLoop opts (localOf segs opts) segs (Suc k)) \<noteq> None)
      \<longleftrightarrow> (cur (runLoop opts (localOf segs opts) segs k) = None
           \<and> (\<exists>v. speedKmh (segs ! k) = Some v \<and> v \<ge> threshold opts (localOf segs opts) k)
           \<and> (\<exists>d. dtS (segs ! k) = Some d \<and> d > 0)))
     \<and> (cur (runLoop opts (localOf segs opts) segs k) = None
          \<and> cur (runLoop opts (localOf segs opts) segs (Suc k)) \<noteq> None \<longrightarrow>
          (\<exists>c v. cur (runLoop opts (localOf segs opts) segs (Suc k)) = Some c
             \<and> speedKmh (segs ! k) = Some v
             \<and> startIdx c = k \<and> segmentIndices c = [k]
             \<and> peak c = max 0 v \<and> (0 \<le> v \<longrightarrow> peak c = v)))
     \<and> (\<not> useAdaptive opts \<longrightarrow> threshold opts (localOf segs opts) k = baseThresholdKmh opts)
     \<and> (useAdaptive opts \<and> 0 < winSec opts \<longrightarrow>
          (\<exists>median std. computeLocalStats segs (winSec opts) ! k = Some (median, std)
             \<and> threshold opts (localOf segs opts) k
                 = max (baseThresholdKmh opts) (median + kSigma opts * std)))
     \<and> (useAdaptive opts \<and> winSec opts \<le> 0 \<longrightarrow>
          threshold opts (localOf segs opts) k = baseThresholdKmh opts)"
    using 1 2 threshold_cases [of opts segs k] assms
    unfolding nx unfolding st_def thr_def s_def st'_def by blast
  show ?thesis using old 6 7 8 by (intro conjI) blast+
qed

subsection \<open>The claims on the sample tracks\<close>

lemmas step_eval = step_def threshold_def initState_def segDt_def js_ge_def js_gt_def
  finiteOr0_def orZero_def dropOf_def newWave_def Let_def

lemma runLoop_paused_1:
  "runLoop pausedOpts None pausedTrack (Suc 0)
     = \<lparr> found = [], cur = Some firstRide, timeOver = 1, timeUnderPeak = 0 \<rparr>"
  by (simp add: runLoop_def pausedOpts_def fixedOpts_def pausedTrack_def northSeg_def
      firstRide_def step_eval)

lemma runLoop_gap_1:
  "runLoop fixedOpts None gapTrack (Suc 0)
     = \<lparr> found = [], cur = Some firstRide, timeOver = 1, timeUnderPeak = 0 \<rparr>"
  by (simp add: runLoop_def fixedOpts_def gapTrack_def northSeg_def firstRide_def step_eval)

theorem under_threshold_segment_witness:
  "Suc 0 < length pausedTrack
   \<and> cur (runLoop pausedOpts None pausedTrack (Suc 0)) = Some firstRide
   \<and> speedKmh (pausedTrack ! Suc 0) = Some 0
   \<and> 0 < threshold pausedOpts None (Suc 0)
   \<and> dropOf firstRide (pausedTrack ! Suc 0) = 100
   \<and> runLoop pausedOpts None pausedTrack (Suc (Suc 0))
       = (runLoop pausedOpts None pausedTrack (Suc 0))\<lparr> timeUnderPeak := 1 \<rparr>"
proof -
  have l: "Suc 0 < length pausedTrack" by (simp add: pausedTrack_def)
  have c: "cur (runLoop pausedOpts None pausedTrack (Suc 0)) = Some firstRide"
    by (simp add: runLoop_paused_1)
  have v: "speedKmh (pausedTrack ! Suc 0) = Some 0" by (simp add: pausedTrack_def northSeg_def)
  have t: "0 < threshold pausedOpts None (Suc 0)"
    by (simp add: threshold_def pausedOpts_def fixedOpts_def)
  have p: "peak firstRide = 20" by (simp add: firstRide_def)
  have g1: "timeUnderPeak (runLoop pausedOpts None pausedTrack (Suc 0)) = 0"
    by (simp add: runLoop_paused_1)
  have g2: "segDt (pausedTrack ! Suc 0) = 1"
    by (simp add: pausedTrack_def northSeg_def segDt_def)
  have g: "timeUnderPeak (runLoop pausedOpts None pausedTrack (Suc 0)) + segDt (pausedTrack ! Suc 0) = 1"
    using g1 g2 by simp
  have o: "dropPct pausedOpts = 35" "endGraceS pausedOpts = 2"
    by (simp_all add: pausedOpts_def fixedOpts_def)
  note T = under_threshold_segment [OF l c v t]
  have d: "dropOf firstRide (pausedTrack ! Suc 0) = 100" using T p by simp
  have r: "runLoop pausedOpts None pausedTrack (Suc (Suc 0))
       = (runLoop pausedOpts None pausedTrack (Suc 0))\<lparr> timeUnderPeak := 1 \<rparr>"
    using T d g o by simp
  show ?thesis using l c v t d r by blast
qed

theorem untimed_segment_keeps_candidate_witness:
  "Suc 0 < length gapTrack \<and> 0 < endGraceS fixedOpts
   \<and> cur (runLoop fixedOpts None gapTrack (Suc 0)) = Some firstRide
   \<and> dtS (gapTrack ! Suc 0) = None
   \<and> dropOf firstRide (gapTrack ! Suc 0) \<ge> dropPct fixedOpts
   \<and> runLoop fixedOpts None gapTrack (Suc (Suc 0)) = runLoop fixedOpts None gapTrack (Suc 0)
   \<and> cur (runLoop fixedOpts None gapTrack (Suc (Suc 0))) \<noteq> None"
proof -
  have l: "Suc 0 < length gapTrack" by (simp add: gapTrack_def)
  have g: "0 < endGraceS fixedOpts" by (simp add: fixedOpts_def)
  have c: "cur (runLoop fixedOpts None gapTrack (Suc 0)) = Some firstRide"
    by (simp add: runLoop_gap_1)
  have n: "dtS (gapTrack ! Suc 0) = None" by (simp add: gapTrack_def untimedSeg_def)
  then have u: "dtS (gapTrack ! Suc 0) = None \<or> (\<exists>d. dtS (gapTrack ! Suc 0) = Some d \<and> d \<le> 0)"
    by simp
  have d: "dropOf firstRide (gapTrack ! Suc 0) \<ge> dropPct fixedOpts"
    by (simp add: dropOf_def firstRide_def gapTrack_def untimedSeg_def orZero_def fixedOpts_def)
  note T = untimed_segment_keeps_candidate [OF l g c u]
  have r: "runLoop fixedOpts None gapTrack (Suc (Suc 0)) = runLoop fixedOpts None gapTrack (Suc 0)"
    using T d by blast
  have a: "cur (runLoop fixedOpts None gapTrack (Suc (Suc 0))) \<noteq> None" using T by blast
  show ?thesis using l g c n d r a by blast
qed

theorem candidate_start_witness:
  "0 < length pausedTrack
   \<and> cur (runLoop pausedOpts (localOf pausedTrack pausedOpts) pausedTrack 0) = None
   \<and> speedKmh (pausedTrack ! 0) = Some 20 \<and> dtS (pausedTrack ! 0) = Some 1
   \<and> threshold pausedOpts (localOf pausedTrack pausedOpts) 0 = 15
   \<and> (\<exists>c. cur (runLoop pausedOpts (localOf pausedTrack pausedOpts) pausedTrack (Suc 0)) = Some c
          \<and> startIdx c = 0 \<and> peak c = 20)
   \<and> useAdaptive adaptiveOpts \<and> 0 < winSec adaptiveOpts
   \<and> (\<exists>median std. computeLocalStats pausedTrack (winSec adaptiveOpts) ! 0 = Some (median, std)
          \<and> threshold adaptiveOpts (localOf pausedTrack adaptiveOpts) 0
              = max (baseThresholdKmh adaptiveOpts) (median + kSigma adaptiveOpts * std))
   \<and> cur (runLoop pausedOpts (localOf pausedTrack pausedOpts) pausedTrack (Suc 0)) = Some firstRide
   \<and> \<not> (\<exists>c'. cur (runLoop pausedOpts (localOf pausedTrack pausedOpts) pausedTrack (Suc (Suc 0)))
                = Some c' \<and> startIdx c' = Suc 0)"
proof -
  have l: "0 < length pausedTrack" by (simp add: pausedTrack_def)
  have i: "cur (runLoop pausedOpts (localOf pausedTrack pausedOpts) pausedTrack 0) = None"
    by (simp add: runLoop_def initState_def)
  have s: "speedKmh (pausedTrack ! 0) = Some 20" "dtS (pausedTrack ! 0) = Some 1"
    by (simp_all add: pausedTrack_def northSeg_def)
  have n: "\<not> useAdaptive pausedOpts" "baseThresholdKmh pausedOpts = 15"
    by (simp_all add: pausedOpts_def fixedOpts_def)
  have a: "useAdaptive adaptiveOpts" "0 < winSec adaptiveOpts"
    by (simp_all add: adaptiveOpts_def fixedOpts_def)
  note T = candidate_start [OF l, of pausedOpts]
  note A = candidate_start [OF l, of adaptiveOpts]
  have t: "threshold pausedOpts (localOf pausedTrack pausedOpts) 0 = 15" using T n by simp
  have st: "cur (runLoop pausedOpts (localOf pausedTrack pausedOpts) pausedTrack (Suc 0)) \<noteq> None"
    using T i s t by simp
  have c: "\<exists>c. cur (runLoop pausedOpts (localOf pausedTrack pausedOpts) pausedTrack (Suc 0)) = Some c
          \<and> startIdx c = 0 \<and> peak c = 20"
    using T i st s by auto
  have m: "\<exists>median std. computeLocalStats pausedTrack (winSec adaptiveOpts) ! 0 = Some (median, std)
          \<and> threshold adaptiveOpts (localOf pausedTrack adaptiveOpts) 0
              = max (baseThresholdKmh adaptiveOpts) (median + kSigma adaptiveOpts * std)"
    using A a by blast
  have n0: "localOf pausedTrack pausedOpts = None" using n by (simp add: localOf_def)
  have o: "cur (runLoop pausedOpts (localOf pausedTrack pausedOpts) pausedTrack (Suc 0)) = Some firstRide"
    by (simp add: n0 runLoop_paused_1)
  have l1: "Suc 0 < length pausedTrack" by (simp add: pausedTrack_def)
  have b: "\<not> (\<exists>c'. cur (runLoop pausedOpts (localOf pausedTrack pausedOpts) pausedTrack (Suc (Suc 0)))
                    = Some c' \<and> startIdx c' = Suc 0)"
  proof
    assume "\<exists>c'. cur (runLoop pausedOpts (localOf pausedTrack pausedOpts) pausedTrack (Suc (Suc 0)))
                    = Some c' \<and> startIdx c' = Suc 0"
    then obtain c' where c': "cur (runLoop pausedOpts (localOf pausedTrack pausedOpts) pausedTrack
        (Suc (Suc 0))) = Some c'" "startIdx c' = Suc 0" by blast
    from candidate_start [OF l1, of pausedOpts] o c'(1) have "startIdx c' < Suc 0" by blast
    then show False using c'(2) by simp
  qed
  show ?thesis using l i s t c a m o b by blast
qed

lemma localLoop_eval:
  "leftAt 2 pausedTrack (Suc 0) = 0 \<and> leftBefore 2 pausedTrack (Suc (Suc 0)) = 0
   \<and> leftAt 2 pausedTrack (Suc (Suc 0)) = Suc 0"
  by (simp add: leftAt_def leftBefore_def localLoop_def localStep_def pausedTrack_def
      northSeg_def upt_rec finiteOr0_def shrinkWindow.simps Let_def)

theorem computeLocalStats_window_witness:
  "(0::real) < 2 \<and> Suc 0 < length pausedTrack \<and> Suc (Suc 0) < length pausedTrack
   \<and> leftAt 2 pausedTrack (Suc 0) = 0
   \<and> windowSpeeds pausedTrack 0 (Suc 0) = [20, 0]
   \<and> computeLocalStats pausedTrack 2 ! Suc 0 = Some (10, specStd [20, 0])
   \<and> leftBefore 2 pausedTrack (Suc (Suc 0)) = 0
   \<and> leftAt 2 pausedTrack (Suc (Suc 0)) = Suc 0
   \<and> 2 < windowSpan pausedTrack 0 (Suc (Suc 0))
   \<and> windowSpan pausedTrack (Suc 0) (Suc (Suc 0)) \<le> 2"
proof -
  have w: "(0::real) < 2" by simp
  have l1: "Suc 0 < length pausedTrack" and l2: "Suc (Suc 0) < length pausedTrack"
    by (simp_all add: pausedTrack_def)
  have p1: "leftAt 2 pausedTrack (Suc 0) = 0" and p2: "leftBefore 2 pausedTrack (Suc (Suc 0)) = 0"
    and p3: "leftAt 2 pausedTrack (Suc (Suc 0)) = Suc 0"
    using localLoop_eval by simp_all
  have s: "windowSpeeds pausedTrack 0 (Suc 0) = [20, 0]"
    by (simp add: windowSpeeds_def pausedTrack_def northSeg_def orZero_def)
  have m: "specMedian [20, 0] = 10" by (simp add: specMedian_def)
  note T = computeLocalStats_window [OF w l1]
  note U = computeLocalStats_window [OF w l2]
  from T have "computeLocalStats pausedTrack 2 ! Suc 0
      = Some (specMedian (windowSpeeds pausedTrack (leftAt 2 pausedTrack (Suc 0)) (Suc 0)),
              specStd (windowSpeeds pausedTrack (leftAt 2 pausedTrack (Suc 0)) (Suc 0)))"
    by blast
  then have e: "computeLocalStats pausedTrack 2 ! Suc 0 = Some (10, specStd [20, 0])"
    by (simp only: p1 s m)
  from U have "\<forall>l. leftBefore 2 pausedTrack (Suc (Suc 0)) \<le> l \<and> l < leftAt 2 pausedTrack (Suc (Suc 0))
      \<longrightarrow> 2 < windowSpan pausedTrack l (Suc (Suc 0))" by blast
  then have g: "2 < windowSpan pausedTrack 0 (Suc (Suc 0))" by (simp add: p2 p3)
  from U have "windowSpan pausedTrack (leftAt 2 pausedTrack (Suc (Suc 0))) (Suc (Suc 0)) \<le> 2
      \<or> leftAt 2 pausedTrack (Suc (Suc 0)) = Suc (Suc 0)" by blast
  then have h: "windowSpan pausedTrack (Suc 0) (Suc (Suc 0)) \<le> 2" by (simp add: p3)
  show ?thesis using w l1 l2 p1 s e p2 p3 g h by blast
qed

subsection \<open>The direction stability filter\<close>

lemma somes_map_Some: "[v. Some v \<leftarrow> map Some xs] = xs"
  by (induction xs) simp_all

lemma circularStdDeg_spec:
  "circularStdDeg (map Some ds) = (if ds = [] then None else Some (specCircularStd ds))"
  by (simp only: circularStdDeg_def somes_map_Some)
     (simp add: Let_def specCircularStd_def foldl_plus_sum power2_eq_square)

lemma stableWave_iff: "stableWave opts w \<longleftrightarrow> \<not> dirRejects opts w"
  by (auto simp: stableWave_def dirRejects_def circularStdDeg_spec Let_def split: option.splits)

text \<open>
  Claim C6.  The waves returned by \<open>detectWavesV2\<close> are the found candidates that the
  direction filter does not reject.  A candidate is rejected exactly when the maximum is
  finite, the circular standard deviation of its bearing samples is defined, equal to
  \<open>sqrt (max 0 (- 2 ln R)) * 180 / pi\<close> with the clamped mean resultant length \<open>R\<close>, and
  exceeds the maximum.  Without bearing samples the deviation is undefined and the
  candidate is not rejected.
\<close>

theorem direction_stability_filter:
  "detectWavesV2 segs opts = filter (\<lambda>w. \<not> dirRejects opts w) (foundWaves segs opts)
   \<and> dirRejects opts w
       = (case dirStdMaxDeg opts of
            None \<Rightarrow> False
          | Some m \<Rightarrow>
              (case circularStdDeg (map Some (bearings w)) of
                 None \<Rightarrow> False
               | Some sd \<Rightarrow> sd = specCircularStd (bearings w) \<and> sd > m))
   \<and> circularStdDeg (map Some (bearings (w\<lparr> bearings := [] \<rparr>))) = None
   \<and> \<not> dirRejects opts (w\<lparr> bearings := [] \<rparr>)"
proof (intro conjI)
  have "stableWave opts = (\<lambda>w. \<not> dirRejects opts w)" by (rule ext) (rule stableWave_iff)
  then show "detectWavesV2 segs opts = filter (\<lambda>w. \<not> dirRejects opts w) (foundWaves segs opts)"
    by (simp add: detectWavesV2_def)
next
  show "dirRejects opts w
       = (case dirStdMaxDeg opts of
            None \<Rightarrow> False
          | Some m \<Rightarrow>
              (case circularStdDeg (map Some (bearings w)) of
                 None \<Rightarrow> False
               | Some sd \<Rightarrow> sd = specCircularStd (bearings w) \<and> sd > m))"
    by (auto simp: dirRejects_def circularStdDeg_spec split: option.splits)
next
  show "circularStdDeg (map Some (bearings (w\<lparr> bearings := [] \<rparr>))) = None"
    by (simp add: circularStdDeg_def)
next
  show "\<not> dirRejects opts (w\<lparr> bearings := [] \<rparr>)"
    by (simp add: dirRejects_def split: option.splits)
qed

lemma specCircularStd_uTurn: "specCircularStd [0, 180] > 25"
proof -
  define X where "X = sqrt (- 2 * ln (1 / 10 ^ 9 :: real))"
  have R: "specCircularStd [0, 180] = X * 180 / pi"
    by (simp add: specCircularStd_def toRad_def X_def)
  have n: "ln (1000000000::real) = 9 * ln 10" using ln_realpow [of "10::real" 9] by simp
  have "exp 1 < (10::real)" using exp_le by linarith
  then have "ln (exp 1) < ln (10::real)" by (subst ln_less_cancel_iff) simp_all
  then have "ln (10::real) > 1" by simp
  then have "- 2 * ln (1 / 10 ^ 9 :: real) > 16" using n by (simp add: ln_div)
  then have "sqrt (- 2 * ln (1 / 10 ^ 9)) > sqrt 16" by (simp only: real_sqrt_less_iff)
  then have s: "X > 4" by (simp add: X_def)
  have p: "0 < pi" "pi < 4" using pi_gt_zero pi_less_4 by simp_all
  have "25 * pi < X * 180" using s p by linarith
  then have "25 < X * 180 / pi" using p(1) by (simp add: pos_less_divide_eq)
  then show ?thesis using R by simp
qed

subsection \<open>Raising the threshold\<close>

lemma overCount_take_Suc:
  "k < length segs \<Longrightarrow>
   overCount thr (take (Suc k) segs)
     = overCount thr (take k segs) + (if isOver thr (segs ! k) then 1 else 0)"
  by (simp add: overCount_def take_Suc_conv_app_nth)

lemma countOk_step:
  assumes "k < length segs" "countOk thr segs k st"
  shows "countOk thr segs (Suc k) (step opts thr k (segs ! k) st)"
proof (cases "isOver thr (segs ! k)")
  case True
  then show ?thesis using assms
    by (cases "cur st")
       (auto simp: countOk_def overCount_take_Suc step_def isOver_def Let_def)
next
  case False
  then show ?thesis using assms
    by (cases "cur st")
       (auto simp: countOk_def overCount_take_Suc step_def isOver_def Let_def)
qed

lemma threshold_fixed: "\<not> useAdaptive opts \<Longrightarrow> threshold opts local k = baseThresholdKmh opts"
  by (simp add: threshold_def)

lemma countOk_runLoop:
  assumes "\<not> useAdaptive opts" "k \<le> length segs"
  shows "countOk (baseThresholdKmh opts) segs k (runLoop opts local segs k)"
  using assms(2)
proof (induction k)
  case 0
  show ?case by (simp add: runLoop_def countOk_def initState_def)
next
  case (Suc k)
  then have "countOk (baseThresholdKmh opts) segs k (runLoop opts local segs k)" "k < length segs"
    by simp_all
  then show ?case
    using countOk_step [of k segs "baseThresholdKmh opts" "runLoop opts local segs k" opts]
    by (simp add: runLoop_Suc threshold_fixed [OF assms(1)])
qed

lemma length_closeAtEnd:
  "length (closeAtEnd opts st) \<le> length (found st) + (case cur st of None \<Rightarrow> 0 | Some c \<Rightarrow> 1)"
  by (simp add: closeAtEnd_def split: option.splits)

lemma waves_le_overCount:
  assumes "\<not> useAdaptive opts"
  shows "length (detectWavesV2 segs opts) \<le> overCount (baseThresholdKmh opts) segs"
proof -
  have "length (detectWavesV2 segs opts) \<le> length (foundWaves segs opts)"
    by (simp add: detectWavesV2_def)
  also have "\<dots> \<le> length (found (runLoop opts (localOf segs opts) segs (length segs)))
      + (case cur (runLoop opts (localOf segs opts) segs (length segs)) of None \<Rightarrow> 0 | Some c \<Rightarrow> 1)"
    unfolding foundWaves_def by (rule length_closeAtEnd)
  also have "\<dots> \<le> overCount (baseThresholdKmh opts) segs"
    using countOk_runLoop [OF assms, of "length segs" segs "localOf segs opts"]
    by (simp add: countOk_def)
  finally show ?thesis .
qed

lemma isOver_antitone: "t1 \<le> t2 \<Longrightarrow> isOver t2 s \<Longrightarrow> isOver t1 s"
  by (auto simp: isOver_def js_ge_def split: option.splits)

lemma overCount_antitone: "t1 \<le> t2 \<Longrightarrow> overCount t2 segs \<le> overCount t1 segs"
proof (induction segs)
  case Nil
  show ?case by (simp add: overCount_def)
next
  case (Cons s segs)
  then show ?case using isOver_antitone [of t1 t2 s] by (auto simp: overCount_def)
qed

text \<open>
  Claim C5, as amended.  In non-adaptive mode, for \<open>t1 \<le> t2\<close>, every segment that
  meets the bar \<open>t2\<close> meets the bar \<open>t1\<close>, so raising the threshold never increases the
  number of segments that meet the bar; every wave needs such a segment of its own, so the
  number of waves at \<open>t2\<close> is at most the number of segments that meet the bar at \<open>t2\<close>,
  hence at \<open>t1\<close>.
\<close>

theorem threshold_monotone_bar:
  assumes "\<not> useAdaptive opts" "t1 \<le> t2"
  shows "(\<forall>s. isOver t2 s \<longrightarrow> isOver t1 s)
     \<and> overCount t2 segs \<le> overCount t1 segs
     \<and> length (detectWavesV2 segs (opts\<lparr> baseThresholdKmh := t2 \<rparr>)) \<le> overCount t2 segs
     \<and> length (detectWavesV2 segs (opts\<lparr> baseThresholdKmh := t2 \<rparr>)) \<le> overCount t1 segs"
proof -
  have a: "\<forall>s. isOver t2 s \<longrightarrow> isOver t1 s" using isOver_antitone [OF assms(2)] by blast
  have b: "overCount t2 segs \<le> overCount t1 segs" by (rule overCount_antitone [OF assms(2)])
  have c: "length (detectWavesV2 segs (opts\<lparr> baseThresholdKmh := t2 \<rparr>)) \<le> overCount t2 segs"
    using waves_le_overCount [of "opts\<lparr> baseThresholdKmh := t2 \<rparr>" segs] assms(1) by simp
  have d: "length (detectWavesV2 segs (opts\<lparr> baseThresholdKmh := t2 \<rparr>)) \<le> overCount t1 segs"
    using b c by linarith
  show ?thesis using a b c d by blast
qed

subsection \<open>The dip and the turn\<close>

lemma sqrt_9: "sqrt 9 = 3"
proof -
  have "sqrt 9 = sqrt (3\<^sup>2)" by simp
  then show ?thesis by (simp only: real_sqrt_abs)
qed

lemma circularStdDeg_north1: "circularStdDeg [Some 0] = Some 0"
  by (simp add: circularStdDeg_def toRad_def)

lemma circularStdDeg_north3: "circularStdDeg [Some 0, Some 0, Some 0] = Some 0"
  by (simp add: circularStdDeg_def toRad_def sqrt_9)

lemma foundWaves_dip_low: "foundWaves dipTrack lowBar = [dipWave]"
  by (simp add: foundWaves_def localOf_def lowBar_def fixedOpts_def dipTrack_def northSeg_def
      dipWave_def runLoop_def closeAtEnd_def upt_3 step_eval)

lemma foundWaves_dip_high: "foundWaves dipTrack highBar = [firstRide, lastRide]"
  by (simp add: foundWaves_def localOf_def highBar_def fixedOpts_def dipTrack_def northSeg_def
      firstRide_def lastRide_def runLoop_def closeAtEnd_def upt_3 step_eval)

lemma detect_dip_low: "detectWavesV2 dipTrack lowBar = [dipWave]"
  by (simp add: detectWavesV2_def foundWaves_dip_low stableWave_def)
     (simp add: dipWave_def lowBar_def fixedOpts_def circularStdDeg_north3)

lemma detect_dip_high: "detectWavesV2 dipTrack highBar = [firstRide, lastRide]"
  by (simp add: detectWavesV2_def foundWaves_dip_high stableWave_def)
     (simp add: firstRide_def lastRide_def highBar_def fixedOpts_def circularStdDeg_north1)

text \<open>
  The claim as stated fails: on the track with a dip the bar 4 gives one wave and the bar
  15 gives two, the dip closing the first one.
\<close>

theorem threshold_monotone_counterexample:
  "\<not> useAdaptive lowBar \<and> highBar = lowBar\<lparr> baseThresholdKmh := 15 \<rparr>
   \<and> baseThresholdKmh lowBar \<le> 15
   \<and> length (detectWavesV2 dipTrack lowBar) = 1
   \<and> length (detectWavesV2 dipTrack highBar) = 2"
  by (simp add: detect_dip_low detect_dip_high) (simp add: lowBar_def highBar_def fixedOpts_def)

theorem threshold_monotone_bar_witness:
  "\<not> useAdaptive lowBar \<and> (4::real) \<le> 15
   \<and> overCount 15 dipTrack \<le> overCount 4 dipTrack
   \<and> length (detectWavesV2 dipTrack (lowBar\<lparr> baseThresholdKmh := 15 \<rparr>)) \<le> overCount 4 dipTrack
   \<and> overCount 4 dipTrack = 3"
proof -
  have n: "\<not> useAdaptive lowBar" by (simp add: lowBar_def fixedOpts_def)
  have t: "(4::real) \<le> 15" by simp
  have c: "overCount 4 dipTrack = 3"
    by (simp add: overCount_def dipTrack_def northSeg_def isOver_def js_ge_def segDt_def)
  note T = threshold_monotone_bar [OF n t, of dipTrack]
  show ?thesis using T n c by simp
qed
theorem direction_stability_filter_witness:
  "dirRejects fixedOpts uTurnWave
   \<and> \<not> dirRejects fixedOpts (uTurnWave\<lparr> bearings := [] \<rparr>)
   \<and> detectWavesV2 dipTrack highBar
       = filter (\<lambda>w. \<not> dirRejects highBar w) (foundWaves dipTrack highBar)"
proof -
  note T = direction_stability_filter [of dipTrack highBar uTurnWave]
  note U = direction_stability_filter [of dipTrack fixedOpts uTurnWave]
  have m: "dirStdMaxDeg fixedOpts = Some 25" by (simp add: fixedOpts_def)
  have b: "bearings uTurnWave = [0, 180]" by (simp add: uTurnWave_def)
  have c: "circularStdDeg (map Some (bearings uTurnWave)) = Some (specCircularStd [0, 180])"
    by (simp only: circularStdDeg_spec b) simp
  have r: "dirRejects fixedOpts uTurnWave"
    using U m c b specCircularStd_uTurn by simp
  have k: "\<not> dirRejects fixedOpts (uTurnWave\<lparr> bearings := [] \<rparr>)" using U by blast
  show ?thesis using T r k by blast
qed

subsection \<open>The direction post-filter\<close>

lemma wrap360_range: "0 \<le> wrap360 x \<and> wrap360 x < 360"
proof -
  have f: "real_of_int \<lfloor>x / 360\<rfloor> \<le> x / 360" "x / 360 < real_of_int \<lfloor>x / 360\<rfloor> + 1"
    by linarith+
  then show ?thesis unfolding wrap360_def by linarith
qed

lemma normalizeBearing_wrap: "normalizeBearing (Some d) = Some (wrap360 d)"
proof (cases "0 \<le> d / 360")
  case True
  then have "js_rem d 360 = wrap360 d" by (simp add: js_rem_def wrap360_def)
  then show ?thesis using wrap360_range [of d] by (simp add: normalizeBearing_def Let_def)
next
  case False
  then have e: "js_rem d 360 = d - 360 * real_of_int \<lceil>d / 360\<rceil>" by (simp add: js_rem_def)
  show ?thesis
  proof (cases "d / 360 = real_of_int \<lfloor>d / 360\<rfloor>")
    case True
    then have "\<lceil>d / 360\<rceil> = \<lfloor>d / 360\<rfloor>" by (simp add: ceiling_altdef)
    then have j: "js_rem d 360 = wrap360 d" using e by (simp add: wrap360_def)
    then show ?thesis using wrap360_range [of d] by (simp add: normalizeBearing_def Let_def)
  next
    case False
    then have "\<lceil>d / 360\<rceil> = \<lfloor>d / 360\<rfloor> + 1" by (simp add: ceiling_altdef)
    then have j: "js_rem d 360 = wrap360 d - 360" using e by (simp add: wrap360_def algebra_simps)
    then show ?thesis using wrap360_range [of d] by (simp add: normalizeBearing_def Let_def)
  qed
qed

lemma js_rem_small: "0 \<le> x \<Longrightarrow> x < 360 \<Longrightarrow> js_rem x 360 = x"
proof -
  assume a: "0 \<le> x" "x < 360"
  then have "\<lfloor>x / 360\<rfloor> = 0" by (simp add: floor_eq_iff)
  then show ?thesis using a by (simp add: js_rem_def)
qed

lemma angularDifference_arc: "angularDifference (Some x) (Some y) = Some (arcDistance x y)"
proof -
  define D where "D = \<bar>wrap360 x - wrap360 y\<bar>"
  have r: "0 \<le> D" "D < 360" using wrap360_range [of x] wrap360_range [of y]
    unfolding D_def by linarith+
  have "angularDifference (Some x) (Some y)
        = Some (if js_rem D 360 > 180 then 360 - js_rem D 360 else js_rem D 360)"
    by (simp add: angularDifference_def normalizeBearing_wrap Let_def D_def)
  also have "js_rem D 360 = D" using r by (rule js_rem_small)
  finally show ?thesis by (simp add: arcDistance_def Let_def D_def [symmetric] min_def)
qed

lemma arcDistance_range: "0 \<le> arcDistance x y \<and> arcDistance x y \<le> 180"
proof -
  define D where "D = \<bar>wrap360 x - wrap360 y\<bar>"
  have r: "0 \<le> D" "D < 360" using wrap360_range [of x] wrap360_range [of y]
    unfolding D_def by linarith+
  have "arcDistance x y = min D (360 - D)" by (simp add: arcDistance_def D_def Let_def)
  then show ?thesis using r by (simp add: min_def)
qed

text \<open>
  Claim C7.  When the direction filter is enabled, the waves that \<open>runWaveDetection\<close>
  keeps are the enriched waves whose direction is defined and whose angular difference to
  the target is at most the tolerance.  The angular difference of two bearings is the
  smaller of the two arcs between them on the circle and lies in \<open>[0, 180]\<close>; from 10 to
  350 it is 20.
\<close>

theorem direction_post_filter:
  "(enabled ds \<longrightarrow>
      fst (directionPostFilter ds ws)
        = filter (\<lambda>w. case directionDeg w of
                        None \<Rightarrow> False
                      | Some d \<Rightarrow> arcDistance d (direction ds) \<le> tolerance ds) ws)
   \<and> angularDifference (Some x) (Some y) = Some (arcDistance x y)
   \<and> 0 \<le> arcDistance x y \<and> arcDistance x y \<le> 180
   \<and> angularDifference (Some 10) (Some 350) = Some 20"
proof -
  have a: "angularDifference (Some 10) (Some 350) = Some 20"
    by (simp add: angularDifference_def normalizeBearing_def js_rem_def)
  show ?thesis
    using a arcDistance_range [of x y]
    by (simp add: directionPostFilter_def angularDifference_arc Let_def cong: option.case_cong)
qed

theorem direction_post_filter_witness:
  "enabled westSettings
   \<and> fst (directionPostFilter westSettings
            [headingWave (Some 10), headingWave None, headingWave (Some 200)])
       = [headingWave (Some 10)]
   \<and> arcDistance 10 350 = 20"
proof -
  note T = direction_post_filter [of westSettings
      "[headingWave (Some 10), headingWave None, headingWave (Some 200)]" 10 350]
  have e: "enabled westSettings" by (simp add: westSettings_def)
  from T have "angularDifference (Some 10) (Some 350) = Some (arcDistance 10 350)"
    "angularDifference (Some 10) (Some 350) = Some 20" by blast+
  then have a: "arcDistance 10 350 = 20" by simp
  have b: "arcDistance 200 350 = 150" by (simp add: arcDistance_def wrap360_def)
  have d: "directionDeg (headingWave z) = z" for z
    by (simp add: headingWave_def wave.defs enrichedWave.defs)
  have s: "direction westSettings = 350" "tolerance westSettings = 30"
    by (simp_all add: westSettings_def)
  show ?thesis using T e a b by (simp add: d s)
qed

subsection \<open>Loading a file\<close>

text \<open>A parser error, or an unknown extension, leaves the state as it was.\<close>

lemma fileChange_parse_error:
  assumes "(if endsWith name ''.gpx'' then parseGPX text
            else if endsWith name ''.csv'' then parseCSV text
            else Inl UnsupportedFormat) = Inl e"
  shows "fileChange parseGPX parseCSV run st name text = (st, Some e)"
  using assms by (simp add: fileChange_def)

lemma length_computeSegments:
  "1 \<le> length pts \<Longrightarrow> length (fst (computeSegmentsAndStats pts)) = length pts - 1"
  using segmentLoop_inv [of "length pts" pts] by (simp add: computeSegments_fst)

text \<open>
  Claim C4 does not hold for a file with fewer than two points: the handler assigns the
  parsed points to \<open>points\<close> before it tests their number.  After the error the state
  holds the single fix of the new file together with the segment of the old track.
\<close>

theorem short_file_overwrites_points:
  "fileChange (\<lambda>t. Inr [loneFix]) (\<lambda>t. Inl CsvTooShort) id loadedState ''short.gpx'' []
     = (loadedState\<lparr> points := [loneFix] \<rparr>, Some NotEnoughPoints)
   \<and> points (loadedState\<lparr> points := [loneFix] \<rparr>) \<noteq> points loadedState
   \<and> segments (loadedState\<lparr> points := [loneFix] \<rparr>) = segments loadedState
   \<and> length (segments loadedState) = 1"
proof -
  have "length (fst (computeSegmentsAndStats twoFixes)) = length twoFixes - 1"
    by (rule length_computeSegments) (simp add: twoFixes_def)
  then have n: "length (segments loadedState) = 1" by (simp add: loadedState_def twoFixes_def)
  have p: "points loadedState = twoFixes" by (simp add: loadedState_def)
  show ?thesis using n p
    by (simp add: fileChange_def endsWith_def twoFixes_def)
qed

end
